(* ===== verification/Prelude.thy ===== *)
theory Prelude
  imports Complex_Main
begin

text \<open>
  Shared vocabulary of the development: the Python primitives that
  \<open>src/vehicle_count.py\<close> relies on, written with their failure cases as values.
  \<^item> \<open>py_error\<close>: the exceptions the modelled code can raise;
  \<^item> \<open>py_int\<close>: \<open>int()\<close> applied to a float (truncation towards zero);
  \<^item> \<open>py_idx\<close>, \<open>py_get\<close>, \<open>py_incr\<close>: list subscripts \<open>xs[i]\<close> and
    \<open>xs[i] = xs[i] + 1\<close>, with negative indices counted from the end and
    \<open>IndexError\<close> out of range;
  \<^item> \<open>py_index\<close>: \<open>list.index(x)\<close>, \<open>ValueError\<close> when \<open>x\<close> is absent;
  \<^item> \<open>py_bind\<close>: sequencing of statements that may raise.
  Their definitions and evaluation lemmas are collected in \<open>py_simps\<close>; the
  per-list and rounding lemmas that the component proofs share follow.
\<close>

named_theorems py_simps "evaluation rules of the modelled Python primitives"

datatype py_error = IndexError | ValueError

type_synonym 'a py_result = "py_error + 'a"

definition py_bind :: "'a py_result \<Rightarrow> ('a \<Rightarrow> 'b py_result) \<Rightarrow> 'b py_result" where
  "py_bind r f = (case r of Inl e \<Rightarrow> Inl e | Inr x \<Rightarrow> f x)"

definition py_int :: "real \<Rightarrow> int" where
  "py_int r = (if 0 \<le> r then \<lfloor>r\<rfloor> else \<lceil>r\<rceil>)"

definition py_idx :: "nat \<Rightarrow> int \<Rightarrow> nat option" where
  "py_idx n i =
     (if 0 \<le> i \<and> i < int n then Some (nat i)
      else if - int n \<le> i \<and> i < 0 then Some (nat (int n + i))
      else None)"

definition py_get :: "'a list \<Rightarrow> int \<Rightarrow> 'a py_result" where
  "py_get xs i = (case py_idx (length xs) i of None \<Rightarrow> Inl IndexError | Some k \<Rightarrow> Inr (xs ! k))"

definition py_incr :: "nat list \<Rightarrow> int \<Rightarrow> nat list py_result" where
  "py_incr xs i =
     (case py_idx (length xs) i of None \<Rightarrow> Inl IndexError | Some k \<Rightarrow> Inr (xs[k := xs ! k + 1]))"

fun py_index :: "'a list \<Rightarrow> 'a \<Rightarrow> nat py_result" where
  "py_index [] x = Inl ValueError"
| "py_index (y # ys) x = (if y = x then Inr 0 else py_bind (py_index ys x) (\<lambda>k. Inr (Suc k)))"

subsection \<open>Sequencing\<close>

text \<open>
  The definitions of the subscript primitives belong to \<open>py_simps\<close>, so that
  \<open>simp add: py_simps\<close> evaluates a concrete subscript or increment.
\<close>

declare py_idx_def [py_simps] py_get_def [py_simps] py_incr_def [py_simps]

lemma py_bind_Inl [simp, py_simps]: "py_bind (Inl e) f = Inl e"
  by (simp add: py_bind_def)

lemma py_bind_Inr [simp, py_simps]: "py_bind (Inr x) f = f x"
  by (simp add: py_bind_def)

lemma py_bind_eq_Inr:
  "py_bind r f = Inr y \<longleftrightarrow> (\<exists>x. r = Inr x \<and> f x = Inr y)"
  by (cases r) auto

subsection \<open>Truncating conversion\<close>

lemma py_int_of_int_half [py_simps]:
  "py_int (real_of_int w / 2) = (if 0 \<le> w then w div 2 else - ((- w) div 2))"
proof (cases "0 \<le> w")
  case True
  have "\<lfloor>real_of_int w / real_of_int 2\<rfloor> = w div 2"
    by (rule floor_divide_of_int_eq)
  with True show ?thesis by (simp add: py_int_def)
next
  case False
  have "\<lceil>real_of_int w / 2\<rceil> = - \<lfloor>real_of_int (- w) / 2\<rfloor>"
    by (simp add: ceiling_def)
  also have "\<lfloor>real_of_int (- w) / 2\<rfloor> = (- w) div 2"
    using floor_divide_of_int_eq [of "- w" 2] by simp
  finally show ?thesis using False by (simp add: py_int_def)
qed

lemma py_int_half_nonneg: "0 \<le> w \<Longrightarrow> py_int (real_of_int w / 2) = w div 2"
  by (simp add: py_int_of_int_half)

lemma py_int_nonneg: "0 \<le> r \<Longrightarrow> 0 \<le> py_int r"
  by (simp add: py_int_def)

lemma py_int_close: "\<bar>real_of_int (py_int r) - r\<bar> < 1"
  by (simp add: py_int_def abs_if; linarith)

lemma py_int_toward_zero:
  "(0 \<le> r \<longrightarrow> real_of_int (py_int r) \<le> r) \<and> (r < 0 \<longrightarrow> r \<le> real_of_int (py_int r))"
  by (simp add: py_int_def; linarith)

lemma int_half_bounds:
  "0 \<le> w \<Longrightarrow> real_of_int w / 2 - 1 / 2 \<le> real_of_int (w div 2) \<and> real_of_int (w div 2) \<le> real_of_int w / 2"
proof -
  have "w = 2 * (w div 2) + w mod 2" by simp
  moreover have "0 \<le> w mod 2" "w mod 2 \<le> 1" by simp_all
  ultimately have "real_of_int w = 2 * real_of_int (w div 2) + real_of_int (w mod 2)"
    "0 \<le> real_of_int (w mod 2)" "real_of_int (w mod 2) \<le> 1"
    by (metis of_int_add of_int_mult of_int_numeral, simp_all)
  then show ?thesis by linarith
qed

lemma center_coordinate_close:
  assumes "0 \<le> w"
  shows "\<bar>real_of_int (py_int v + w div 2) - (v + real_of_int w / 2)\<bar> < 3 / 2"
proof -
  have c: "real_of_int (py_int v) - v < 1" "v - real_of_int (py_int v) < 1"
    using py_int_close [of v] by (simp_all add: abs_less_iff)
  have z: "0 \<le> v \<longrightarrow> real_of_int (py_int v) \<le> v" "v < 0 \<longrightarrow> v \<le> real_of_int (py_int v)"
    using py_int_toward_zero [of v] by simp_all
  have h: "real_of_int w / 2 - 1 / 2 \<le> real_of_int (w div 2)" "real_of_int (w div 2) \<le> real_of_int w / 2"
    using int_half_bounds [OF assms] by simp_all
  show ?thesis
    unfolding abs_less_iff of_int_add using c z h by (cases "0 \<le> v") linarith+
qed

subsection \<open>Subscripts\<close>

lemma py_idx_Some_less: "py_idx n i = Some k \<Longrightarrow> k < n"
  by (auto simp: py_idx_def split: if_splits)

lemma py_idx_nonneg [py_simps]: "0 \<le> i \<Longrightarrow> i < int n \<Longrightarrow> py_idx n i = Some (nat i)"
  by (simp add: py_idx_def)

lemma py_idx_None_iff: "py_idx n i = None \<longleftrightarrow> i < - int n \<or> int n \<le> i"
  by (auto simp: py_idx_def)

lemma py_incr_Inr_iff:
  "py_incr xs i = Inr ys \<longleftrightarrow> (\<exists>k. py_idx (length xs) i = Some k \<and> ys = xs[k := xs ! k + 1])"
  by (auto simp: py_incr_def split: option.splits)

lemma py_incr_Inl_iff: "(\<exists>e. py_incr xs i = Inl e) \<longleftrightarrow> py_idx (length xs) i = None"
  by (auto simp: py_incr_def split: option.splits)

lemma py_incr_length: "py_incr xs i = Inr ys \<Longrightarrow> length ys = length xs"
  by (auto simp: py_incr_Inr_iff)

lemma py_incr_mono: "py_incr xs i = Inr ys \<Longrightarrow> list_all2 (\<le>) xs ys"
  by (auto simp: py_incr_Inr_iff list_all2_conv_all_nth nth_list_update
      dest: py_idx_Some_less)

lemma py_incr_sum: "py_incr xs i = Inr ys \<Longrightarrow> sum_list ys = Suc (sum_list xs)"
proof -
  assume "py_incr xs i = Inr ys"
  then obtain k where k: "k < length xs" and ys: "ys = xs[k := xs ! k + 1]"
    by (auto simp: py_incr_Inr_iff dest: py_idx_Some_less)
  have "sum_list (xs[k := xs ! k + 1]) = sum_list xs + (xs ! k + 1) - xs ! k"
    using k by (rule sum_list_update)
  then show ?thesis using ys by simp
qed

lemma py_index_Inr: "py_index xs x = Inr k \<Longrightarrow> k < length xs \<and> xs ! k = x \<and> x \<notin> set (take k xs)"
  by (induction xs arbitrary: k) (auto simp: py_bind_eq_Inr split: if_splits)

lemma py_index_ok: "x \<in> set xs \<Longrightarrow> \<exists>k. py_index xs x = Inr k"
  by (induction xs) auto

lemma py_index_Inl: "py_index xs x = Inl e \<longleftrightarrow> x \<notin> set xs \<and> e = ValueError"
  by (induction xs) (auto simp: py_bind_def split: sum.splits)

subsection \<open>Lists without duplicates\<close>

lemma notin_remove1_distinct [simp]: "distinct xs \<Longrightarrow> x \<notin> set (remove1 x xs)"
  by simp

lemma list_all2_le_refl [intro]: "list_all2 (\<le>) (xs :: nat list) xs"
  by (simp add: list_all2_refl)

lemma list_all2_le_trans:
  "list_all2 (\<le>) (xs :: nat list) ys \<Longrightarrow> list_all2 (\<le>) ys zs \<Longrightarrow> list_all2 (\<le>) xs zs"
  by (rule list_all2_trans [OF order_trans])

lemma list_all2_le_sum_list: "list_all2 (\<le>) (xs :: nat list) ys \<Longrightarrow> sum_list xs \<le> sum_list ys"
  by (induction rule: list_all2_induct) simp_all

end
