(* ===== verification/Geometry.thy ===== *)
theory Geometry
  imports Prelude
begin

text \<open>
  The module-level configuration of \<open>src/vehicle_count.py\<close> and the geometry that
  both the tracker and the counter use: the three horizontal reference lines
  (lines 23--25), the detector thresholds (lines 15--16), the COCO class indices of
  the four tracked vehicle classes (line 34) and \<open>find_center\<close> (lines 55--60).
  A detection annotated with its identity is the tuple \<open>box_id\<close>
  \<open>(x, y, w, h, id, index)\<close> that \<open>count_vehicle\<close> unpacks (line 72). The
  lemmas evaluate the configuration and bound the centre.
\<close>

type_synonym box_id = "int \<times> int \<times> int \<times> int \<times> nat \<times> int"

text \<open>
  A detection handed to the tracker, \<open>[x, y, w, h, index]\<close> (line 134), and the
  tracker's interface: \<open>tracker.update\<close> maps its state and a frame's detections
  to the new state and the detections annotated with identities (line 137).
\<close>

type_synonym detection = "int \<times> int \<times> int \<times> int \<times> int"

type_synonym 't tracker_update = "'t \<Rightarrow> detection list \<Rightarrow> 't \<times> box_id list"

definition confThreshold :: real where
  "confThreshold = 0.2"

definition nmsThreshold :: real where
  "nmsThreshold = 0.2"

definition middle_line_position :: int where
  "middle_line_position = 225"

definition up_line_position :: int where
  "up_line_position = middle_line_position - 15"

definition down_line_position :: int where
  "down_line_position = middle_line_position + 15"

definition required_class_index :: "nat list" where
  "required_class_index = [2, 3, 5, 7]"

definition find_center :: "int \<Rightarrow> int \<Rightarrow> int \<Rightarrow> int \<Rightarrow> int \<times> int" where
  "find_center x y w h =
     (let x1 = py_int (real_of_int w / 2);
          y1 = py_int (real_of_int h / 2);
          cx = x + x1;
          cy = y + y1
      in (cx, cy))"

fun box_ident :: "box_id \<Rightarrow> nat" where
  "box_ident (x, y, w, h, i, index) = i"

fun box_class :: "box_id \<Rightarrow> int" where
  "box_class (x, y, w, h, i, index) = index"

fun det_class :: "detection \<Rightarrow> int" where
  "det_class (x, y, w, h, index) = index"

fun box_cy :: "box_id \<Rightarrow> int" where
  "box_cy (x, y, w, h, i, index) = snd (find_center x y w h)"

subsection \<open>Configuration values\<close>

lemma line_positions [simp]:
  "middle_line_position = 225" "up_line_position = 210" "down_line_position = 240"
  by (simp_all add: middle_line_position_def up_line_position_def down_line_position_def)

lemma lines_ordered: "up_line_position < middle_line_position \<and> middle_line_position < down_line_position"
  by simp

subsection \<open>Centres\<close>

text \<open>
  \<open>int(w / 2)\<close> truncates towards zero, so for a negative width the centre differs
  from \<open>x + w // 2\<close>; for the non-negative sizes a detector produces it is the
  floor division.
\<close>

lemma find_center_eq [simp, py_simps]:
  "find_center x y w h =
     (x + (if 0 \<le> w then w div 2 else - ((- w) div 2)),
      y + (if 0 \<le> h then h div 2 else - ((- h) div 2)))"
  by (simp add: find_center_def py_int_of_int_half Let_def)

lemma find_center_nonneg:
  "0 \<le> w \<Longrightarrow> 0 \<le> h \<Longrightarrow> find_center x y w h = (x + w div 2, y + h div 2)"
  by (simp add: find_center_eq)

lemma find_center_inside:
  "0 \<le> w \<Longrightarrow> 0 \<le> h \<Longrightarrow> find_center x y w h = (cx, cy) \<Longrightarrow>
     x \<le> cx \<and> cx \<le> x + w \<and> y \<le> cy \<and> cy \<le> y + h"
  by (auto simp: find_center_nonneg)

declare box_cy.simps [simp del]

lemma box_cy_eq [simp]:
  "box_cy (x, y, w, h, i, index) = y + (if 0 \<le> h then h div 2 else - ((- h) div 2))"
  by (simp add: box_cy.simps find_center_eq)

end
