(* ===== verification/Counter.thy ===== *)
theory Counter
  imports Geometry
begin

text \<open>
  The crossing counter of \<open>src/vehicle_count.py\<close>: the four module-level lists
  \<open>temp_up_list\<close>, \<open>temp_down_list\<close>, \<open>up_list\<close>, \<open>down_list\<close> (lines 64--67)
  become the record \<open>counter_state\<close>; \<open>count_vehicle\<close> (lines 71--95) is one
  observation step that returns the updated state or the \<open>IndexError\<close> that
  \<open>up_list[index]\<close> raises; \<open>count_boxes\<close> is the loop of lines 138--139 that
  feeds the tracker's output to it. Drawing the centre (line 95) has no effect on
  the state and is left out.

  Above the code sits a per-identity view: \<open>band_of\<close> names the five outcomes of
  the \<open>if\<close>/\<open>elif\<close> chain, \<open>pending s i\<close> is the pair of membership flags of
  identity \<open>i\<close>, \<open>id_step\<close> is the per-identity machine those flags follow and
  \<open>id_run\<close> its run; \<open>spec_step\<close> is the specification's three-state machine,
  against which the code is compared. The lemmas first restate the step by band
  (\<open>count_vehicle_band\<close>, \<open>count_vehicle_Inr_cases\<close>), then give frame, length,
  monotonicity and conservation facts per step and per run, and end with the claims.
  \<open>counter_reach\<close> is the inductive set of reachable states, paired with the
  observations that reach them; it coincides with the runs of \<open>count_boxes\<close> from
  \<open>init_counter\<close> (\<open>counter_reach_iff\<close>), and its invariant is proved by rule
  induction.
\<close>

record counter_state =
  temp_up_list :: "nat list"
  temp_down_list :: "nat list"
  up_list :: "nat list"
  down_list :: "nat list"

definition init_counter :: counter_state where
  "init_counter =
     \<lparr>temp_up_list = [], temp_down_list = [], up_list = [0, 0, 0, 0], down_list = [0, 0, 0, 0]\<rparr>"

fun count_vehicle :: "box_id \<Rightarrow> counter_state \<Rightarrow> counter_state py_result" where
  "count_vehicle (x, y, w, h, i, index) s =
     (case find_center x y w h of (ix, iy) \<Rightarrow>
        if up_line_position < iy \<and> iy < middle_line_position then
          Inr (if i \<notin> set (temp_up_list s)
               then s\<lparr>temp_up_list := temp_up_list s @ [i]\<rparr> else s)
        else if iy < down_line_position \<and> middle_line_position < iy then
          Inr (if i \<notin> set (temp_down_list s)
               then s\<lparr>temp_down_list := temp_down_list s @ [i]\<rparr> else s)
        else if iy < up_line_position then
          (if i \<in> set (temp_down_list s)
           then py_bind (py_incr (up_list s) index)
                  (\<lambda>u. Inr (s\<lparr>temp_down_list := remove1 i (temp_down_list s), up_list := u\<rparr>))
           else Inr s)
        else if down_line_position < iy then
          (if i \<in> set (temp_up_list s)
           then py_bind (py_incr (down_list s) index)
                  (\<lambda>d. Inr (s\<lparr>temp_up_list := remove1 i (temp_up_list s), down_list := d\<rparr>))
           else Inr s)
        else Inr s)"

fun count_boxes :: "box_id list \<Rightarrow> counter_state \<Rightarrow> counter_state py_result" where
  "count_boxes [] s = Inr s"
| "count_boxes (b # bs) s = py_bind (count_vehicle b s) (count_boxes bs)"

subsection \<open>The per-identity view\<close>

datatype band = Near_up | Near_down | Far_up | Far_down | On_line

datatype direction = Up | Down

definition band_of :: "int \<Rightarrow> band" where
  "band_of iy =
     (if up_line_position < iy \<and> iy < middle_line_position then Near_up
      else if iy < down_line_position \<and> middle_line_position < iy then Near_down
      else if iy < up_line_position then Far_up
      else if down_line_position < iy then Far_down
      else On_line)"

definition pending :: "counter_state \<Rightarrow> nat \<Rightarrow> bool \<times> bool" where
  "pending s i = (i \<in> set (temp_up_list s), i \<in> set (temp_down_list s))"

fun id_step :: "band \<Rightarrow> bool \<times> bool \<Rightarrow> (bool \<times> bool) \<times> direction option" where
  "id_step Near_up (u, d) = ((True, d), None)"
| "id_step Near_down (u, d) = ((u, True), None)"
| "id_step Far_up (u, d) = (if d then ((u, False), Some Up) else ((u, d), None))"
| "id_step Far_down (u, d) = (if u then ((False, d), Some Down) else ((u, d), None))"
| "id_step On_line p = (p, None)"

definition counter_wf :: "counter_state \<Rightarrow> bool" where
  "counter_wf s \<longleftrightarrow> distinct (temp_up_list s) \<and> distinct (temp_down_list s)"

definition tally :: "counter_state \<Rightarrow> nat" where
  "tally s = sum_list (up_list s) + sum_list (down_list s)"

definition npending :: "counter_state \<Rightarrow> nat" where
  "npending s = length (temp_up_list s) + length (temp_down_list s)"

fun counts_of :: "direction \<Rightarrow> counter_state \<Rightarrow> nat list" where
  "counts_of Up s = up_list s"
| "counts_of Down s = down_list s"

definition is_near :: "box_id \<Rightarrow> bool" where
  "is_near b \<longleftrightarrow> band_of (box_cy b) = Near_up \<or> band_of (box_cy b) = Near_down"

text \<open>
  The specification's per-identity machine (section 4.2): states \<open>UNSEEN\<close>,
  \<open>PENDING_UP\<close>, \<open>PENDING_DOWN\<close>; a near band arms an unseen identity, the
  opposite far band resolves a pending one into a count, every other observation of a
  pending identity is a no-op, and an unseen identity in a far band (or on a line)
  stays unseen. \<open>zone_flags\<close> reads a state as the code's pair of membership flags,
  \<open>id_run\<close> folds \<open>id_step\<close> over one identity's band sequence.
\<close>

datatype zone = Unseen | Pending_up | Pending_down

fun zone_flags :: "zone \<Rightarrow> bool \<times> bool" where
  "zone_flags Unseen = (False, False)"
| "zone_flags Pending_up = (True, False)"
| "zone_flags Pending_down = (False, True)"

inductive spec_step :: "zone \<Rightarrow> band \<Rightarrow> zone \<Rightarrow> direction option \<Rightarrow> bool" where
  arm_up: "spec_step Unseen Near_up Pending_up None"
| arm_down: "spec_step Unseen Near_down Pending_down None"
| resolve_up: "spec_step Pending_down Far_up Unseen (Some Up)"
| resolve_down: "spec_step Pending_up Far_down Unseen (Some Down)"
| unseen_stay: "b \<noteq> Near_up \<Longrightarrow> b \<noteq> Near_down \<Longrightarrow> spec_step Unseen b Unseen None"
| up_stay: "b \<noteq> Far_down \<Longrightarrow> spec_step Pending_up b Pending_up None"
| down_stay: "b \<noteq> Far_up \<Longrightarrow> spec_step Pending_down b Pending_down None"

code_pred spec_step .

fun id_run :: "band list \<Rightarrow> bool \<times> bool \<Rightarrow> bool \<times> bool" where
  "id_run [] p = p"
| "id_run (b # bs) p = id_run bs (fst (id_step b p))"

definition jitter_trace :: "box_id list" where
  "jitter_trace = [(0, 210, 10, 10, 1, 0), (0, 230, 10, 10, 1, 0), (0, 200, 10, 10, 1, 0), (0, 240, 10, 10, 1, 0)]"

text \<open>
  The counter states reachable from the module's initial lists by error-free calls
  of \<open>count_vehicle\<close>, together with the observations that led there.
\<close>

inductive counter_reach :: "box_id list \<Rightarrow> counter_state \<Rightarrow> bool" where
  init: "counter_reach [] init_counter"
| step: "counter_reach bs s \<Longrightarrow> count_vehicle b s = Inr s' \<Longrightarrow> counter_reach (bs @ [b]) s'"

subsection \<open>The observation step by band\<close>

text \<open>
  The \<open>if\<close>/\<open>elif\<close> chain of lines 79--89 read through \<open>band_of\<close>; every
  later proof goes through this equation instead of the tuple-pattern definition.
\<close>

lemma count_vehicle_band:
  "count_vehicle b s =
     (let i = box_ident b in
      case band_of (box_cy b) of
        Near_up \<Rightarrow> Inr (if i \<notin> set (temp_up_list s)
                          then s\<lparr>temp_up_list := temp_up_list s @ [i]\<rparr> else s)
      | Near_down \<Rightarrow> Inr (if i \<notin> set (temp_down_list s)
                          then s\<lparr>temp_down_list := temp_down_list s @ [i]\<rparr> else s)
      | Far_up \<Rightarrow> (if i \<in> set (temp_down_list s)
                    then py_bind (py_incr (up_list s) (box_class b))
                      (\<lambda>u. Inr (s\<lparr>temp_down_list := remove1 i (temp_down_list s), up_list := u\<rparr>))
                    else Inr s)
      | Far_down \<Rightarrow> (if i \<in> set (temp_up_list s)
                    then py_bind (py_incr (down_list s) (box_class b))
                      (\<lambda>d. Inr (s\<lparr>temp_up_list := remove1 i (temp_up_list s), down_list := d\<rparr>))
                    else Inr s)
      | On_line \<Rightarrow> Inr s)"
proof -
  obtain x y w h i index where b: "b = (x, y, w, h, i, index)"
    by (rule prod_cases6)
  obtain ix iy where c: "find_center x y w h = (ix, iy)"
    by (rule prod.exhaust)
  show ?thesis
    unfolding b band_of_def
    by (simp add: c box_cy.simps Let_def del: find_center_eq box_cy_eq line_positions)
qed

declare count_vehicle.simps [simp del]

lemma count_vehicle_Inr_cases:
  assumes "count_vehicle b s = Inr s'"
  obtains (arm_up) "band_of (box_cy b) = Near_up"
    "s' = (if box_ident b \<notin> set (temp_up_list s)
           then s\<lparr>temp_up_list := temp_up_list s @ [box_ident b]\<rparr> else s)"
  | (arm_down) "band_of (box_cy b) = Near_down"
    "s' = (if box_ident b \<notin> set (temp_down_list s)
           then s\<lparr>temp_down_list := temp_down_list s @ [box_ident b]\<rparr> else s)"
  | (count_up) u where "band_of (box_cy b) = Far_up" "box_ident b \<in> set (temp_down_list s)"
    "py_incr (up_list s) (box_class b) = Inr u"
    "s' = s\<lparr>temp_down_list := remove1 (box_ident b) (temp_down_list s), up_list := u\<rparr>"
  | (count_down) d where "band_of (box_cy b) = Far_down" "box_ident b \<in> set (temp_up_list s)"
    "py_incr (down_list s) (box_class b) = Inr d"
    "s' = s\<lparr>temp_up_list := remove1 (box_ident b) (temp_up_list s), down_list := d\<rparr>"
  | (idle) "s' = s"
    "band_of (box_cy b) = On_line \<or>
     (band_of (box_cy b) = Far_up \<and> box_ident b \<notin> set (temp_down_list s)) \<or>
     (band_of (box_cy b) = Far_down \<and> box_ident b \<notin> set (temp_up_list s))"
  using assms
  by (cases "band_of (box_cy b)")
    (auto simp: count_vehicle_band Let_def py_bind_eq_Inr split: if_splits)

lemma count_boxes_append:
  "count_boxes (bs @ cs) s = py_bind (count_boxes bs s) (count_boxes cs)"
  by (induction bs arbitrary: s) (auto simp: py_bind_def split: sum.splits)

lemma band_of_On_line:
  "band_of iy = On_line \<longleftrightarrow> iy \<in> {up_line_position, middle_line_position, down_line_position}"
  by (auto simp: band_of_def)

subsection \<open>Frame and single-step facts\<close>

lemma count_vehicle_pending_other:
  "count_vehicle b s = Inr s' \<Longrightarrow> k \<noteq> box_ident b \<Longrightarrow> pending s' k = pending s k"
  by (erule count_vehicle_Inr_cases) (auto simp: pending_def)

lemma count_vehicle_idle:
  "pending s (box_ident b) = (False, False) \<Longrightarrow> \<not> is_near b \<Longrightarrow> count_vehicle b s = Inr s"
  by (cases "band_of (box_cy b)") (auto simp: count_vehicle_band pending_def is_near_def)

lemma count_vehicle_lengths:
  "count_vehicle b s = Inr s' \<Longrightarrow>
     length (up_list s') = length (up_list s) \<and> length (down_list s') = length (down_list s)"
  by (erule count_vehicle_Inr_cases) (auto dest: py_incr_length)

lemma count_vehicle_wf:
  "counter_wf s \<Longrightarrow> count_vehicle b s = Inr s' \<Longrightarrow> counter_wf s'"
  by (erule count_vehicle_Inr_cases) (auto simp: counter_wf_def)

lemma count_vehicle_ok:
  "0 \<le> box_class b \<Longrightarrow> box_class b < int (length (up_list s)) \<Longrightarrow>
     box_class b < int (length (down_list s)) \<Longrightarrow> \<exists>s'. count_vehicle b s = Inr s'"
  by (cases "band_of (box_cy b)") (auto simp: count_vehicle_band py_incr_def py_idx_nonneg Let_def)

lemma count_boxes_ok:
  "\<forall>b\<in>set bs. 0 \<le> box_class b \<and> box_class b < int (length (up_list s)) \<and>
      box_class b < int (length (down_list s)) \<Longrightarrow> \<exists>s'. count_boxes bs s = Inr s'"
proof (induction bs arbitrary: s)
  case (Cons b bs)
  then obtain t where t: "count_vehicle b s = Inr t"
    using count_vehicle_ok [of b s] by auto
  with Cons.prems have "\<exists>s'. count_boxes bs t = Inr s'"
    by (intro Cons.IH) (simp add: count_vehicle_lengths)
  with t show ?case by simp
qed simp

lemma count_boxes_lengths:
  "count_boxes bs s = Inr s' \<Longrightarrow>
     length (up_list s') = length (up_list s) \<and> length (down_list s') = length (down_list s)"
proof (induction bs arbitrary: s)
  case (Cons b bs)
  then show ?case by (auto simp: py_bind_eq_Inr dest!: count_vehicle_lengths)
qed simp

lemma count_vehicle_unpending:
  "pending s (box_ident b) = (False, False) \<Longrightarrow> count_vehicle b s = Inr s' \<Longrightarrow>
     up_list s' = up_list s \<and> down_list s' = down_list s"
  by (erule count_vehicle_Inr_cases) (auto simp: pending_def)

lemma count_boxes_fresh_unchanged:
  "distinct (map box_ident bs) \<Longrightarrow> \<forall>b\<in>set bs. pending s (box_ident b) = (False, False) \<Longrightarrow>
     count_boxes bs s = Inr s' \<Longrightarrow> up_list s' = up_list s \<and> down_list s' = down_list s"
proof (induction bs arbitrary: s)
  case (Cons b bs)
  then obtain t where t: "count_vehicle b s = Inr t" and r: "count_boxes bs t = Inr s'"
    by (auto simp: py_bind_eq_Inr)
  have "\<forall>b'\<in>set bs. pending t (box_ident b') = (False, False)"
  proof
    fix b' assume b': "b' \<in> set bs"
    from Cons.prems(1) have "box_ident b \<notin> box_ident ` set bs" by simp
    with b' have "box_ident b' \<noteq> box_ident b" by (metis image_eqI)
    with count_vehicle_pending_other [OF t] Cons.prems(2) b'
    show "pending t (box_ident b') = (False, False)" by simp
  qed
  with Cons.IH [of t] Cons.prems(1) r have "up_list s' = up_list t \<and> down_list s' = down_list t"
    by simp
  with count_vehicle_unpending [OF _ t] Cons.prems(2) show ?case by simp
qed simp

lemma count_vehicle_step_mono:
  "count_vehicle b s = Inr s' \<Longrightarrow>
     list_all2 (\<le>) (up_list s) (up_list s') \<and> list_all2 (\<le>) (down_list s) (down_list s')"
  by (erule count_vehicle_Inr_cases) (auto dest: py_incr_mono)

lemma count_vehicle_conserve:
  assumes "counter_wf s" and "count_vehicle b s = Inr s'"
  shows "tally s' + npending s' \<le> tally s + npending s + (if is_near b then 1 else 0)"
  using assms(2)
proof (cases rule: count_vehicle_Inr_cases)
  case (count_up u)
  then have "length (temp_down_list s) \<noteq> 0" by auto
  with count_up show ?thesis
    by (auto simp: tally_def npending_def length_remove1 dest: py_incr_sum)
next
  case (count_down d)
  then have "length (temp_up_list s) \<noteq> 0" by auto
  with count_down show ?thesis
    by (auto simp: tally_def npending_def length_remove1 dest: py_incr_sum)
qed (auto simp: tally_def npending_def is_near_def)

lemma count_boxes_step_mono:
  "count_boxes bs s = Inr s' \<Longrightarrow>
     list_all2 (\<le>) (up_list s) (up_list s') \<and> list_all2 (\<le>) (down_list s) (down_list s')"
proof (induction bs arbitrary: s)
  case (Cons b bs)
  then obtain t where t: "count_vehicle b s = Inr t" and r: "count_boxes bs t = Inr s'"
    by (auto simp: py_bind_eq_Inr)
  from count_vehicle_step_mono [OF t] Cons.IH [OF r] show ?case
    by (blast intro: list_all2_le_trans)
qed auto

lemma count_boxes_wf:
  "counter_wf s \<Longrightarrow> count_boxes bs s = Inr s' \<Longrightarrow> counter_wf s'"
proof (induction bs arbitrary: s)
  case (Cons b bs)
  then show ?case by (auto simp: py_bind_eq_Inr intro: count_vehicle_wf)
qed simp

lemma count_vehicle_id_step:
  assumes wf: "counter_wf s" and step: "count_vehicle b s = Inr s'"
  shows "pending s' =
           (pending s)(box_ident b := fst (id_step (band_of (box_cy b)) (pending s (box_ident b)))) \<and>
         (case snd (id_step (band_of (box_cy b)) (pending s (box_ident b))) of
            None \<Rightarrow> up_list s' = up_list s \<and> down_list s' = down_list s
          | Some Up \<Rightarrow> py_incr (up_list s) (box_class b) = Inr (up_list s') \<and> down_list s' = down_list s
          | Some Down \<Rightarrow> up_list s' = up_list s \<and> py_incr (down_list s) (box_class b) = Inr (down_list s'))"
  using step
proof (cases rule: count_vehicle_Inr_cases)
  case (count_up u)
  with wf show ?thesis by (auto simp: pending_def fun_eq_iff counter_wf_def)
next
  case (count_down d)
  with wf show ?thesis by (auto simp: pending_def fun_eq_iff counter_wf_def)
next
  case idle
  then show ?thesis by (auto simp: pending_def fun_eq_iff)
qed (auto simp: pending_def fun_eq_iff)

lemma ex_zone: "(\<exists>z. P z) \<longleftrightarrow> P Unseen \<or> P Pending_up \<or> P Pending_down"
  by (metis zone.exhaust)

lemma spec_step_iff_id_step:
  "\<not> (z = Pending_up \<and> b = Near_down) \<Longrightarrow> \<not> (z = Pending_down \<and> b = Near_up) \<Longrightarrow>
     spec_step z b z' d \<longleftrightarrow> id_step b (zone_flags z) = (zone_flags z', d)"
  by (cases z; cases b; cases z') (auto simp: spec_step.simps)

lemma id_step_zone:
  "\<not> (z = Pending_up \<and> b = Near_down) \<Longrightarrow> \<not> (z = Pending_down \<and> b = Near_up) \<Longrightarrow>
     \<exists>z'. fst (id_step b (zone_flags z)) = zone_flags z'"
  by (cases z; cases b) (simp_all add: ex_zone)

lemma count_vehicle_tally:
  assumes "counter_wf s" and "count_vehicle b s = Inr s'"
  shows "tally s' = tally s + (if snd (id_step (band_of (box_cy b)) (pending s (box_ident b))) = None then 0 else 1)"
  using count_vehicle_id_step [OF assms]
  by (auto simp: tally_def split: option.splits direction.splits dest!: py_incr_sum)

lemma count_boxes_pending:
  "counter_wf s \<Longrightarrow> count_boxes bs s = Inr s' \<Longrightarrow>
     pending s' k = id_run (map (\<lambda>b. band_of (box_cy b)) (filter (\<lambda>b. box_ident b = k) bs)) (pending s k)"
proof (induction bs arbitrary: s)
  case (Cons b bs)
  then obtain t where t: "count_vehicle b s = Inr t" and r: "count_boxes bs t = Inr s'"
    by (auto simp: py_bind_eq_Inr)
  have p: "pending t = (pending s)(box_ident b := fst (id_step (band_of (box_cy b)) (pending s (box_ident b))))"
    using count_vehicle_id_step [OF Cons.prems(1) t] by simp
  have "pending s' k = id_run (map (\<lambda>b. band_of (box_cy b)) (filter (\<lambda>b. box_ident b = k) bs)) (pending t k)"
    using Cons.IH [OF count_vehicle_wf [OF Cons.prems(1) t] r] .
  with p show ?case by (cases "box_ident b = k") auto
qed simp

lemma id_run_keeps_up: "fst p \<Longrightarrow> Far_down \<notin> set xs \<Longrightarrow> fst (id_run xs p)"
proof (induction xs arbitrary: p)
  case (Cons x xs)
  then show ?case by (cases p; cases x) auto
qed simp

lemma count_vehicle_tally_far:
  "count_vehicle b s = Inr s' \<Longrightarrow> tally s' \<le> tally s + (if is_near b then 0 else 1)"
  by (erule count_vehicle_Inr_cases) (auto simp: tally_def is_near_def dest: py_incr_sum)

lemma count_vehicle_pending_ids:
  "count_vehicle b s = Inr s' \<Longrightarrow>
     set (temp_up_list s') \<union> set (temp_down_list s') \<subseteq>
       set (temp_up_list s) \<union> set (temp_down_list s) \<union> (if is_near b then {box_ident b} else {})"
  by (erule count_vehicle_Inr_cases) (auto simp: is_near_def dest: in_set_remove1 [THEN iffD1] set_remove1_subset [THEN subsetD])

lemma counter_reach_count_boxes: "counter_reach bs s \<Longrightarrow> count_boxes bs init_counter = Inr s"
  by (induction rule: counter_reach.induct) (simp_all add: count_boxes_append)

lemma count_boxes_counter_reach:
  "count_boxes bs s0 = Inr s \<Longrightarrow> counter_reach pre s0 \<Longrightarrow> counter_reach (pre @ bs) s"
proof (induction bs arbitrary: pre s0)
  case (Cons b bs)
  then obtain t where t: "count_vehicle b s0 = Inr t" and r: "count_boxes bs t = Inr s"
    by (auto simp: py_bind_eq_Inr)
  have "counter_reach (pre @ [b]) t" using Cons.prems(2) t by (rule counter_reach.step)
  from Cons.IH [OF r this] show ?case by simp
qed simp

lemma counter_reach_iff: "counter_reach bs s \<longleftrightarrow> count_boxes bs init_counter = Inr s"
  using counter_reach_count_boxes count_boxes_counter_reach [of bs init_counter s "[]"]
  by (auto intro: counter_reach.init)

lemma count_vehicle_sums:
  assumes "counter_wf s" and "count_vehicle b s = Inr s'"
  shows "pending s' (box_ident b) = fst (id_step (band_of (box_cy b)) (pending s (box_ident b))) \<and>
    sum_list (up_list s') = sum_list (up_list s) +
      (if snd (id_step (band_of (box_cy b)) (pending s (box_ident b))) = Some Up then 1 else 0) \<and>
    sum_list (down_list s') = sum_list (down_list s) +
      (if snd (id_step (band_of (box_cy b)) (pending s (box_ident b))) = Some Down then 1 else 0)"
  using count_vehicle_id_step [OF assms]
  by (auto split: option.splits direction.splits dest!: py_incr_sum)

lemma count_vehicle_unpending_ok:
  "pending s (box_ident b) = (False, False) \<Longrightarrow> \<exists>s'. count_vehicle b s = Inr s'"
  by (cases "band_of (box_cy b)") (auto simp: count_vehicle_band pending_def Let_def)

subsection \<open>Properties of the counter\<close>

text \<open>
  C1. One observation refines the per-identity machine: in a well-formed state a
  successful \<open>count_vehicle\<close> changes the flags of the observed identity exactly as
  \<open>id_step\<close> of its band prescribes, leaves every other identity's flags alone, and
  increments the counter list \<open>id_step\<close> names (at the observation's class index)
  and no other.
\<close>

theorem count_vehicle_refines_id_step:
  assumes wf: "counter_wf s" and step: "count_vehicle b s = Inr s'"
  shows "pending s' =
           (pending s)(box_ident b := fst (id_step (band_of (box_cy b)) (pending s (box_ident b)))) \<and>
         (case snd (id_step (band_of (box_cy b)) (pending s (box_ident b))) of
            None \<Rightarrow> up_list s' = up_list s \<and> down_list s' = down_list s
          | Some Up \<Rightarrow> py_incr (up_list s) (box_class b) = Inr (up_list s') \<and> down_list s' = down_list s
          | Some Down \<Rightarrow> up_list s' = up_list s \<and> py_incr (down_list s) (box_class b) = Inr (down_list s'))"
  using wf step by (rule count_vehicle_id_step)

theorem count_vehicle_refines_id_step_witness:
  "counter_wf (init_counter\<lparr>temp_up_list := [1]\<rparr>) \<and>
   count_vehicle (0, 240, 10, 10, 1, 2) (init_counter\<lparr>temp_up_list := [1]\<rparr>) =
     Inr (init_counter\<lparr>down_list := [0, 0, 1, 0]\<rparr>) \<and>
   pending (init_counter\<lparr>down_list := [0, 0, 1, 0]\<rparr>) =
     (pending (init_counter\<lparr>temp_up_list := [1]\<rparr>))(1 := (False, False))"
proof -
  have wf: "counter_wf (init_counter\<lparr>temp_up_list := [1]\<rparr>)"
    by (simp add: counter_wf_def init_counter_def)
  have step: "count_vehicle (0, 240, 10, 10, 1, 2) (init_counter\<lparr>temp_up_list := [1]\<rparr>) =
      Inr (init_counter\<lparr>down_list := [0, 0, 1, 0]\<rparr>)"
    by (simp add: count_vehicle.simps init_counter_def py_simps)
  have "box_ident (0, 240, 10, 10, 1, 2) = 1" "band_of (box_cy (0, 240, 10, 10, 1, 2)) = Far_down"
    "pending (init_counter\<lparr>temp_up_list := [1]\<rparr>) 1 = (True, False)"
    by (simp_all add: band_of_def pending_def init_counter_def)
  with count_vehicle_refines_id_step [OF wf step] wf step show ?thesis by simp
qed

text \<open>
  C2. Monotonicity: along any run of observations that raises no error, every entry
  of \<open>up_list\<close> and of \<open>down_list\<close> is non-decreasing.
\<close>

theorem count_boxes_monotone:
  "count_boxes bs s = Inr s' \<Longrightarrow>
     list_all2 (\<le>) (up_list s) (up_list s') \<and> list_all2 (\<le>) (down_list s) (down_list s')"
  by (rule count_boxes_step_mono)

theorem count_boxes_monotone_witness:
  "count_boxes jitter_trace init_counter =
     Inr (init_counter\<lparr>up_list := [1, 0, 0, 0], down_list := [1, 0, 0, 0]\<rparr>) \<and>
   list_all2 (\<le>) (up_list init_counter) [1, 0, 0, 0] \<and>
   list_all2 (\<le>) (down_list init_counter) [1, 0, 0, 0]"
proof -
  have run: "count_boxes jitter_trace init_counter =
      Inr (init_counter\<lparr>up_list := [1, 0, 0, 0], down_list := [1, 0, 0, 0]\<rparr>)"
    by (simp add: jitter_trace_def count_vehicle.simps init_counter_def py_simps)
  from count_boxes_monotone [OF run] run show ?thesis by simp
qed

text \<open>
  C3. No count without approach: if identity \<open>k\<close> is not pending and is never
  observed in a near band, then its observations change nothing: the run gives the
  same result as the run with all of \<open>k\<close>'s observations removed, so \<open>k\<close>
  contributes to no counter.
\<close>

theorem count_boxes_no_approach_no_count:
  assumes "pending s k = (False, False)" and "\<forall>b\<in>set bs. box_ident b = k \<longrightarrow> \<not> is_near b"
  shows "count_boxes bs s = count_boxes (filter (\<lambda>b. box_ident b \<noteq> k) bs) s"
  using assms
proof (induction bs arbitrary: s)
  case (Cons b bs)
  show ?case
  proof (cases "box_ident b = k")
    case True
    with Cons.prems have "count_vehicle b s = Inr s"
      by (auto intro: count_vehicle_idle)
    with True Cons.IH Cons.prems show ?thesis by simp
  next
    case False
    show ?thesis
    proof (cases "count_vehicle b s")
      case (Inr t)
      with False Cons.prems(1) have "pending t k = (False, False)"
        by (simp add: count_vehicle_pending_other)
      with Cons.IH Cons.prems(2) have "count_boxes bs t = count_boxes (filter (\<lambda>b. box_ident b \<noteq> k) bs) t"
        by simp
      with Inr False show ?thesis by simp
    qed (use False in simp)
  qed
qed simp

theorem count_boxes_no_approach_no_count_witness:
  "pending init_counter 1 = (False, False) \<and>
   \<not> is_near (0, 200, 10, 10, 1, 0) \<and> \<not> is_near (0, 240, 10, 10, 1, 0) \<and>
   count_boxes [(0, 200, 10, 10, 1, 0), (0, 210, 10, 10, 2, 0), (0, 240, 10, 10, 1, 0)] init_counter =
     count_boxes [(0, 210, 10, 10, 2, 0)] init_counter"
proof -
  have p: "pending init_counter 1 = (False, False)"
    by (simp add: pending_def init_counter_def)
  have n: "\<forall>b\<in>set [(0, 200, 10, 10, 1, 0), (0, 210, 10, 10, 2, 0), (0, 240, 10, 10, 1, 0)].
      box_ident b = 1 \<longrightarrow> \<not> is_near b"
    by (simp add: is_near_def band_of_def)
  from count_boxes_no_approach_no_count [OF p n] p n show ?thesis by simp
qed

text \<open>
  C4. Counts are paid for by approaches: along any run from a well-formed state the
  counters plus the pending entries grow by at most the number of near-band
  observations; from the initial state the total count is at most the number of
  near-band observations.
\<close>

theorem count_boxes_count_bound:
  "counter_wf s \<Longrightarrow> count_boxes bs s = Inr s' \<Longrightarrow>
     tally s' + npending s' \<le> tally s + npending s + length (filter is_near bs)"
proof (induction bs arbitrary: s)
  case (Cons b bs)
  then obtain t where t: "count_vehicle b s = Inr t" and r: "count_boxes bs t = Inr s'"
    by (auto simp: py_bind_eq_Inr)
  have "tally t + npending t \<le> tally s + npending s + (if is_near b then 1 else 0)"
    using count_vehicle_conserve [OF Cons.prems(1) t] .
  moreover have "tally s' + npending s' \<le> tally t + npending t + length (filter is_near bs)"
    using Cons.IH [OF count_vehicle_wf [OF Cons.prems(1) t] r] .
  ultimately show ?case by (cases "is_near b") auto
qed simp

theorem count_boxes_count_bound_witness:
  "counter_wf init_counter \<and>
   count_boxes jitter_trace init_counter =
     Inr (init_counter\<lparr>up_list := [1, 0, 0, 0], down_list := [1, 0, 0, 0]\<rparr>) \<and>
   tally (init_counter\<lparr>up_list := [1, 0, 0, 0], down_list := [1, 0, 0, 0]\<rparr>) \<le>
     length (filter is_near jitter_trace)"
proof -
  have wf: "counter_wf init_counter"
    by (simp add: counter_wf_def init_counter_def)
  have run: "count_boxes jitter_trace init_counter =
      Inr (init_counter\<lparr>up_list := [1, 0, 0, 0], down_list := [1, 0, 0, 0]\<rparr>)"
    by (simp add: jitter_trace_def count_vehicle.simps init_counter_def py_simps)
  from count_boxes_count_bound [OF wf run] wf run show ?thesis
    by (simp add: tally_def npending_def init_counter_def)
qed

text \<open>
  C5. Contrary to the specification, one identity can be pending in both directions
  and is then counted in both: from any duplicate-free state in which it is not
  pending, four successful observations of one identity in the bands near-up,
  near-down, far-up, far-down (a box jittering across the line, at any positions
  in those bands and with any class index) leave it pending both ways after the
  second observation, and add exactly one up count and one down count.
\<close>

theorem jitter_counts_both_directions:
  assumes wf: "counter_wf s" and unseen: "pending s k = (False, False)"
    and ids: "map box_ident bs = [k, k, k, k]"
    and bands: "map (\<lambda>b. band_of (box_cy b)) bs = [Near_up, Near_down, Far_up, Far_down]"
    and run: "count_boxes bs s = Inr s'"
  shows "(\<exists>s2. count_boxes (take 2 bs) s = Inr s2 \<and> pending s2 k = (True, True)) \<and>
         sum_list (up_list s') = Suc (sum_list (up_list s)) \<and>
         sum_list (down_list s') = Suc (sum_list (down_list s))"
proof -
  have "length bs = 4" using arg_cong [OF ids, of length] by simp
  then obtain b1 b2 b3 b4 where bs: "bs = [b1, b2, b3, b4]"
    by (auto simp: numeral_eq_Suc length_Suc_conv)
  from ids bands bs have i: "box_ident b1 = k" "box_ident b2 = k" "box_ident b3 = k" "box_ident b4 = k"
    and b: "band_of (box_cy b1) = Near_up" "band_of (box_cy b2) = Near_down"
      "band_of (box_cy b3) = Far_up" "band_of (box_cy b4) = Far_down"
    by simp_all
  from run bs obtain s1 s2 s3 where r1: "count_vehicle b1 s = Inr s1" and r2: "count_vehicle b2 s1 = Inr s2"
    and r3: "count_vehicle b3 s2 = Inr s3" and r4: "count_vehicle b4 s3 = Inr s'"
    by (auto simp: py_bind_eq_Inr)
  have wf1: "counter_wf s1" using count_vehicle_wf [OF wf r1] .
  have wf2: "counter_wf s2" using count_vehicle_wf [OF wf1 r2] .
  have wf3: "counter_wf s3" using count_vehicle_wf [OF wf2 r3] .
  have p1: "pending s1 k = (True, False)" and u1: "sum_list (up_list s1) = sum_list (up_list s)"
    and d1: "sum_list (down_list s1) = sum_list (down_list s)"
    using count_vehicle_sums [OF wf r1] unseen i b by simp_all
  have p2: "pending s2 k = (True, True)" and u2: "sum_list (up_list s2) = sum_list (up_list s1)"
    and d2: "sum_list (down_list s2) = sum_list (down_list s1)"
    using count_vehicle_sums [OF wf1 r2] p1 i b by simp_all
  have p3: "pending s3 k = (True, False)" and u3: "sum_list (up_list s3) = Suc (sum_list (up_list s2))"
    and d3: "sum_list (down_list s3) = sum_list (down_list s2)"
    using count_vehicle_sums [OF wf2 r3] p2 i b by simp_all
  have u4: "sum_list (up_list s') = sum_list (up_list s3)"
    and d4: "sum_list (down_list s') = Suc (sum_list (down_list s3))"
    using count_vehicle_sums [OF wf3 r4] p3 i b by simp_all
  have "count_boxes (take 2 bs) s = Inr s2" using bs r1 r2 by simp
  with p2 u1 u2 u3 u4 d1 d2 d3 d4 show ?thesis by auto
qed

theorem jitter_counts_both_directions_witness:
  "count_boxes jitter_trace init_counter =
     Inr (init_counter\<lparr>up_list := [1, 0, 0, 0], down_list := [1, 0, 0, 0]\<rparr>) \<and>
   (\<exists>s2. count_boxes (take 2 jitter_trace) init_counter = Inr s2 \<and> pending s2 1 = (True, True)) \<and>
   sum_list (up_list (init_counter\<lparr>up_list := [1, 0, 0, 0], down_list := [1, 0, 0, 0]\<rparr>)) =
     Suc (sum_list (up_list init_counter))"
proof -
  have wf: "counter_wf init_counter" by (simp add: counter_wf_def init_counter_def)
  have u: "pending init_counter 1 = (False, False)" by (simp add: pending_def init_counter_def)
  have run: "count_boxes jitter_trace init_counter =
      Inr (init_counter\<lparr>up_list := [1, 0, 0, 0], down_list := [1, 0, 0, 0]\<rparr>)"
    by (simp add: jitter_trace_def count_vehicle.simps init_counter_def py_simps)
  have "map box_ident jitter_trace = [1, 1, 1, 1]"
    "map (\<lambda>b. band_of (box_cy b)) jitter_trace = [Near_up, Near_down, Far_up, Far_down]"
    by (simp_all add: jitter_trace_def band_of_def)
  from jitter_counts_both_directions [OF wf u this run] run show ?thesis by simp
qed

text \<open>
  C6. Errors: an observation raises exactly when it resolves a crossing (per
  \<open>id_step\<close>) and its class index is out of range for the counter list it would
  increment; the exception is then \<open>IndexError\<close>. Near-band, on-line and
  unresolved observations never raise.
\<close>

theorem count_vehicle_error:
  "count_vehicle b s = Inl e \<longleftrightarrow>
     e = IndexError \<and>
     (\<exists>dir. snd (id_step (band_of (box_cy b)) (pending s (box_ident b))) = Some dir \<and>
            py_idx (length (counts_of dir s)) (box_class b) = None)"
  by (cases "band_of (box_cy b)")
    (auto simp: count_vehicle_band pending_def py_incr_def Let_def split: option.splits)

text \<open>
  C7. Idempotence: repeating an observation right after it has been processed
  changes nothing, so an identity seen twice in a row in the same band is never
  counted twice.
\<close>

theorem count_vehicle_idempotent:
  assumes wf: "counter_wf s" and step: "count_vehicle b s = Inr s'"
  shows "count_vehicle b s' = Inr s'"
  using step
proof (cases rule: count_vehicle_Inr_cases)
  case (count_up u)
  with wf show ?thesis by (simp add: count_vehicle_band counter_wf_def)
next
  case (count_down d)
  with wf show ?thesis by (simp add: count_vehicle_band counter_wf_def)
next
  case idle
  with step show ?thesis by simp
qed (auto simp: count_vehicle_band)

theorem count_vehicle_idempotent_witness:
  "counter_wf (init_counter\<lparr>temp_down_list := [1]\<rparr>) \<and>
   count_vehicle (0, 200, 10, 10, 1, 0) (init_counter\<lparr>temp_down_list := [1]\<rparr>) =
     Inr (init_counter\<lparr>up_list := [1, 0, 0, 0]\<rparr>) \<and>
   count_vehicle (0, 200, 10, 10, 1, 0) (init_counter\<lparr>up_list := [1, 0, 0, 0]\<rparr>) =
     Inr (init_counter\<lparr>up_list := [1, 0, 0, 0]\<rparr>)"
proof -
  have wf: "counter_wf (init_counter\<lparr>temp_down_list := [1]\<rparr>)"
    by (simp add: counter_wf_def init_counter_def)
  have step: "count_vehicle (0, 200, 10, 10, 1, 0) (init_counter\<lparr>temp_down_list := [1]\<rparr>) =
      Inr (init_counter\<lparr>up_list := [1, 0, 0, 0]\<rparr>)"
    by (simp add: count_vehicle.simps init_counter_def py_simps)
  from count_vehicle_idempotent [OF wf step] wf step show ?thesis by simp
qed

text \<open>
  C8. The dead zone: an observation whose centre lies exactly on one of the three
  lines (y = 210, 225 or 240) matches no branch of the \<open>if\<close>/\<open>elif\<close> chain and
  leaves the state unchanged.
\<close>

theorem count_vehicle_on_line_ignored:
  "box_cy b \<in> {up_line_position, middle_line_position, down_line_position} \<Longrightarrow>
     count_vehicle b s = Inr s"
proof -
  assume "box_cy b \<in> {up_line_position, middle_line_position, down_line_position}"
  then have "band_of (box_cy b) = On_line"
    by (simp only: band_of_On_line)
  then show ?thesis by (simp add: count_vehicle_band)
qed

theorem count_vehicle_on_line_ignored_witness:
  "box_cy (0, 220, 10, 10, 1, 0) \<in> {up_line_position, middle_line_position, down_line_position} \<and>
   count_vehicle (0, 220, 10, 10, 1, 0) (init_counter\<lparr>temp_up_list := [1]\<rparr>) =
     Inr (init_counter\<lparr>temp_up_list := [1]\<rparr>)"
proof -
  have on: "box_cy (0, 220, 10, 10, 1, 0) \<in> {up_line_position, middle_line_position, down_line_position}"
    by simp
  from count_vehicle_on_line_ignored [OF on] on show ?thesis by simp
qed

text \<open>C9. Every run keeps both pending lists free of duplicates.\<close>

theorem count_vehicle_preserves_wf:
  "counter_wf s \<Longrightarrow> count_boxes bs s = Inr s' \<Longrightarrow> counter_wf s'"
  by (rule count_boxes_wf)

theorem count_vehicle_preserves_wf_witness:
  "counter_wf init_counter \<and>
   count_boxes (take 2 jitter_trace) init_counter =
     Inr (init_counter\<lparr>temp_up_list := [1], temp_down_list := [1]\<rparr>) \<and>
   counter_wf (init_counter\<lparr>temp_up_list := [1], temp_down_list := [1]\<rparr>)"
proof -
  have wf: "counter_wf init_counter"
    by (simp add: counter_wf_def init_counter_def)
  have run: "count_boxes (take 2 jitter_trace) init_counter =
      Inr (init_counter\<lparr>temp_up_list := [1], temp_down_list := [1]\<rparr>)"
    by (simp add: jitter_trace_def count_vehicle.simps init_counter_def)
  from count_vehicle_preserves_wf [OF wf run] wf run show ?thesis by simp
qed

text \<open>
  C29. Against the specification's three-state machine \<open>spec_step\<close>: when the
  observed identity is in a specification state (not pending both ways), a successful
  observation moves it to a state the specification allows and adds exactly one count
  per resolution, except for the two transitions where the code departs from the
  specification (a pending-up identity seen near-down, a pending-down identity seen
  near-up: the specification keeps the state, the code arms the other direction too).
\<close>

theorem count_vehicle_refines_spec_machine:
  assumes wf: "counter_wf s" and step: "count_vehicle b s = Inr s'"
    and z: "pending s (box_ident b) = zone_flags z"
    and ex1: "\<not> (z = Pending_up \<and> band_of (box_cy b) = Near_down)"
    and ex2: "\<not> (z = Pending_down \<and> band_of (box_cy b) = Near_up)"
  shows "\<exists>z' d. spec_step z (band_of (box_cy b)) z' d \<and> pending s' (box_ident b) = zone_flags z' \<and>
           tally s' = tally s + (if d = None then 0 else 1)"
proof -
  let ?r = "id_step (band_of (box_cy b)) (zone_flags z)"
  obtain z' where z': "fst ?r = zone_flags z'"
    using id_step_zone [OF ex1 ex2] by blast
  have sp: "spec_step z (band_of (box_cy b)) z' (snd ?r)"
    using spec_step_iff_id_step [OF ex1 ex2] z' by (metis prod.collapse)
  have "pending s' (box_ident b) = zone_flags z'"
    using count_vehicle_id_step [OF wf step] z z' by simp
  moreover have "tally s' = tally s + (if snd ?r = None then 0 else 1)"
    using count_vehicle_tally [OF wf step] z by simp
  ultimately show ?thesis using sp by blast
qed

theorem count_vehicle_refines_spec_machine_witness:
  "counter_wf (init_counter\<lparr>temp_up_list := [1]\<rparr>) \<and>
   count_vehicle (0, 240, 10, 10, 1, 0) (init_counter\<lparr>temp_up_list := [1]\<rparr>) =
     Inr (init_counter\<lparr>down_list := [1, 0, 0, 0]\<rparr>) \<and>
   pending (init_counter\<lparr>temp_up_list := [1]\<rparr>) 1 = zone_flags Pending_up \<and>
   band_of (box_cy (0, 240, 10, 10, 1, 0)) = Far_down \<and>
   spec_step Pending_up Far_down Unseen (Some Down) \<and>
   pending (init_counter\<lparr>down_list := [1, 0, 0, 0]\<rparr>) 1 = zone_flags Unseen"
proof -
  have wf: "counter_wf (init_counter\<lparr>temp_up_list := [1]\<rparr>)"
    by (simp add: counter_wf_def init_counter_def)
  have step: "count_vehicle (0, 240, 10, 10, 1, 0) (init_counter\<lparr>temp_up_list := [1]\<rparr>) =
     Inr (init_counter\<lparr>down_list := [1, 0, 0, 0]\<rparr>)"
    by (simp add: count_vehicle.simps init_counter_def py_simps)
  have z: "pending (init_counter\<lparr>temp_up_list := [1]\<rparr>) (box_ident (0, 240, 10, 10, 1, 0)) = zone_flags Pending_up"
    by (simp add: pending_def init_counter_def)
  have band: "band_of (box_cy (0, 240, 10, 10, 1, 0)) = Far_down"
    by (simp add: band_of_def)
  have "\<exists>z' d. spec_step Pending_up Far_down z' d \<and>
      pending (init_counter\<lparr>down_list := [1, 0, 0, 0]\<rparr>) 1 = zone_flags z' \<and>
      tally (init_counter\<lparr>down_list := [1, 0, 0, 0]\<rparr>) =
        tally (init_counter\<lparr>temp_up_list := [1]\<rparr>) + (if d = None then 0 else 1)"
    using count_vehicle_refines_spec_machine [OF wf step z] band by simp
  with wf step z band show ?thesis
    by (auto simp: pending_def init_counter_def intro: spec_step.intros)
qed

text \<open>
  C30. Per-identity independence over whole runs: after any error-free run from a
  duplicate-free state, the flags of identity \<open>k\<close> are those obtained by running
  \<open>id_step\<close> over the bands of \<open>k\<close>'s own observations only, in order;
  observations of other identities never affect \<open>k\<close>.
\<close>

theorem count_boxes_per_identity:
  "counter_wf s \<Longrightarrow> count_boxes bs s = Inr s' \<Longrightarrow>
     pending s' k = id_run (map (\<lambda>b. band_of (box_cy b)) (filter (\<lambda>b. box_ident b = k) bs)) (pending s k)"
  by (rule count_boxes_pending)

theorem count_boxes_per_identity_witness:
  "counter_wf init_counter \<and>
   count_boxes jitter_trace init_counter =
     Inr (init_counter\<lparr>up_list := [1, 0, 0, 0], down_list := [1, 0, 0, 0]\<rparr>) \<and>
   pending (init_counter\<lparr>up_list := [1, 0, 0, 0], down_list := [1, 0, 0, 0]\<rparr>) 1 =
     id_run [Near_up, Near_down, Far_up, Far_down] (False, False)"
proof -
  have wf: "counter_wf init_counter"
    by (simp add: counter_wf_def init_counter_def)
  have run: "count_boxes jitter_trace init_counter =
      Inr (init_counter\<lparr>up_list := [1, 0, 0, 0], down_list := [1, 0, 0, 0]\<rparr>)"
    by (simp add: jitter_trace_def count_vehicle.simps init_counter_def py_simps)
  from count_boxes_per_identity [OF wf run, of 1] wf run show ?thesis
    by (simp add: jitter_trace_def band_of_def pending_def init_counter_def)
qed


lemma count_boxes_crossing_counted:
  assumes wf: "counter_wf s"
    and run: "count_boxes (pre @ b1 # mid @ b2 # post) s = Inr s'"
    and near: "box_ident b1 = k" "band_of (box_cy b1) = Near_up"
    and far: "box_ident b2 = k" "band_of (box_cy b2) = Far_down"
    and stay: "\<forall>b\<in>set mid. box_ident b = k \<longrightarrow> band_of (box_cy b) \<noteq> Far_down"
  shows "sum_list (down_list s) < sum_list (down_list s')"
proof -
  obtain s1 s2 s3 s4 where r1: "count_boxes pre s = Inr s1" and r2: "count_vehicle b1 s1 = Inr s2"
    and r3: "count_boxes mid s2 = Inr s3" and r4: "count_vehicle b2 s3 = Inr s4"
    and r5: "count_boxes post s4 = Inr s'"
    using run by (auto simp: count_boxes_append py_bind_eq_Inr)
  have wf1: "counter_wf s1" using count_boxes_wf [OF wf r1] .
  have wf2: "counter_wf s2" using count_vehicle_wf [OF wf1 r2] .
  have wf3: "counter_wf s3" using count_boxes_wf [OF wf2 r3] .
  have "fst (pending s2 k)"
    using count_vehicle_id_step [OF wf1 r2] near by (cases "pending s1 k") simp
  moreover have "Far_down \<notin> set (map (\<lambda>b. band_of (box_cy b)) (filter (\<lambda>b. box_ident b = k) mid))"
    using stay by auto
  ultimately have "fst (pending s3 k)"
    using count_boxes_pending [OF wf2 r3, of k] id_run_keeps_up by simp
  then obtain d where p3: "pending s3 k = (True, d)" by (cases "pending s3 k") simp
  have "py_incr (down_list s3) (box_class b2) = Inr (down_list s4)"
    using count_vehicle_id_step [OF wf3 r4] far p3 by simp
  then have "sum_list (down_list s4) = Suc (sum_list (down_list s3))" by (rule py_incr_sum)
  moreover have "sum_list (down_list s) \<le> sum_list (down_list s1)"
    using count_boxes_step_mono [OF r1] list_all2_le_sum_list by blast
  moreover have "sum_list (down_list s1) \<le> sum_list (down_list s2)"
    using count_vehicle_step_mono [OF r2] list_all2_le_sum_list by blast
  moreover have "sum_list (down_list s2) \<le> sum_list (down_list s3)"
    using count_boxes_step_mono [OF r3] list_all2_le_sum_list by blast
  moreover have "sum_list (down_list s4) \<le> sum_list (down_list s')"
    using count_boxes_step_mono [OF r5] list_all2_le_sum_list by blast
  ultimately show ?thesis by linarith
qed

text \<open>
  C34. Progress of a crossing: if an identity is seen in the near-up band and later
  in the far-down band, with no far-down observation of it in between, then an
  error-free run counts it: the total of \<open>down_list\<close> strictly grows, whatever
  other identities are observed before, between and after.
\<close>

theorem count_boxes_exit_counted:
  assumes wf: "counter_wf s"
    and run: "count_boxes (pre @ b1 # mid @ b2 # post) s = Inr s'"
    and near: "box_ident b1 = k" "band_of (box_cy b1) = Near_up"
    and far: "box_ident b2 = k" "band_of (box_cy b2) = Far_down"
    and stay: "\<forall>b\<in>set mid. box_ident b = k \<longrightarrow> band_of (box_cy b) \<noteq> Far_down"
  shows "sum_list (down_list s) < sum_list (down_list s')"
  using assms by (rule count_boxes_crossing_counted)

theorem count_boxes_exit_counted_witness:
  "count_boxes [(0, 210, 10, 10, 1, 0), (0, 230, 10, 10, 2, 1), (0, 240, 10, 10, 1, 3)] init_counter =
     Inr (init_counter\<lparr>temp_down_list := [2], down_list := [0, 0, 0, 1]\<rparr>) \<and>
   sum_list (down_list init_counter) < sum_list (down_list (init_counter\<lparr>temp_down_list := [2], down_list := [0, 0, 0, 1]\<rparr>))"
proof -
  have wf: "counter_wf init_counter" by (simp add: counter_wf_def init_counter_def)
  have run: "count_boxes ([] @ (0, 210, 10, 10, 1, 0) # [(0, 230, 10, 10, 2, 1)] @ (0, 240, 10, 10, 1, 3) # [])
      init_counter = Inr (init_counter\<lparr>temp_down_list := [2], down_list := [0, 0, 0, 1]\<rparr>)"
    by (simp add: count_vehicle.simps init_counter_def py_simps)
  have "sum_list (down_list init_counter) <
      sum_list (down_list (init_counter\<lparr>temp_down_list := [2], down_list := [0, 0, 0, 1]\<rparr>))"
    by (rule count_boxes_exit_counted [OF wf run, of 1]) (simp_all add: band_of_def)
  with run show ?thesis by simp
qed

text \<open>
  C35. Invariant of the reachable counter states, by rule induction over
  \<open>counter_reach\<close>: the pending lists stay duplicate-free, the count lists keep
  their four buckets, every pending identity was observed in a near band, and the
  counts are paid for by observations: counts plus pending entries never exceed
  the near-band observations, and counts never exceed the other observations.
\<close>

theorem counter_reach_invariant:
  assumes "counter_reach bs s"
  shows "counter_wf s \<and> length (up_list s) = 4 \<and> length (down_list s) = 4 \<and>
     set (temp_up_list s) \<union> set (temp_down_list s) \<subseteq> box_ident ` set (filter is_near bs) \<and>
     tally s + npending s \<le> length (filter is_near bs) \<and>
     tally s \<le> length (filter (\<lambda>b. \<not> is_near b) bs)"
  using assms
proof (induction rule: counter_reach.induct)
  case init
  then show ?case by (simp add: init_counter_def counter_wf_def tally_def npending_def)
next
  case (step bs s b s')
  have "counter_wf s'" using count_vehicle_wf step by blast
  moreover have "length (up_list s') = 4 \<and> length (down_list s') = 4"
    using count_vehicle_lengths [OF step.hyps(2)] step.IH by simp
  moreover have "set (temp_up_list s') \<union> set (temp_down_list s') \<subseteq> box_ident ` set (filter is_near (bs @ [b]))"
    using count_vehicle_pending_ids [OF step.hyps(2)] step.IH by (auto split: if_splits)
  moreover have "tally s' + npending s' \<le> length (filter is_near (bs @ [b]))"
  proof -
    have "counter_wf s" using step.IH by simp
    from count_vehicle_conserve [OF this step.hyps(2)] step.IH show ?thesis
      by (cases "is_near b") simp_all
  qed
  moreover have "tally s' \<le> length (filter (\<lambda>b. \<not> is_near b) (bs @ [b]))"
    using count_vehicle_tally_far [OF step.hyps(2)] step.IH by (cases "is_near b") simp_all
  ultimately show ?case by blast
qed

theorem counter_reach_invariant_witness:
  "counter_reach jitter_trace (init_counter\<lparr>up_list := [1, 0, 0, 0], down_list := [1, 0, 0, 0]\<rparr>) \<and>
   tally (init_counter\<lparr>up_list := [1, 0, 0, 0], down_list := [1, 0, 0, 0]\<rparr>) = 2 \<and>
   length (filter is_near jitter_trace) = 2 \<and>
   length (filter (\<lambda>b. \<not> is_near b) jitter_trace) = 2"
proof -
  have r: "counter_reach jitter_trace (init_counter\<lparr>up_list := [1, 0, 0, 0], down_list := [1, 0, 0, 0]\<rparr>)"
    unfolding counter_reach_iff
    by (simp add: jitter_trace_def count_vehicle.simps init_counter_def py_simps)
  have n: "length (filter is_near jitter_trace) = 2" "length (filter (\<lambda>b. \<not> is_near b) jitter_trace) = 2"
    by (simp_all add: jitter_trace_def is_near_def band_of_def)
  from counter_reach_invariant [OF r] n have "tally (init_counter\<lparr>up_list := [1, 0, 0, 0], down_list := [1, 0, 0, 0]\<rparr>) \<le> 2"
    by simp
  moreover have "tally (init_counter\<lparr>up_list := [1, 0, 0, 0], down_list := [1, 0, 0, 0]\<rparr>) = 2"
    by (simp add: tally_def)
  ultimately show ?thesis using r n by simp
qed

end
