(* ===== verification/PostProcess.thy ===== *)
theory PostProcess
  imports Counter
begin

text \<open>
  Detection post-processing, \<open>postProcess\<close> of \<open>src/vehicle_count.py\<close>
  (lines 99--139). A network output row \<open>det\<close> is a list of reals
  \<open>[cx, cy, w, h, objectness, score_0, \<dots>]\<close> (float32 values read as exact reals).
  \<^item> \<open>np_argmax\<close>: numpy's \<open>argmax\<close>, the first index of a maximal element,
    \<open>ValueError\<close> on an empty sequence;
  \<^item> \<open>det_candidate\<close>: the body of the inner loop (lines 108--117) for one row;
  \<^item> \<open>scan_output\<close>, \<open>scan_outputs\<close>: the two nested loops (lines 106--107)
    filling the parallel lists \<open>boxes\<close>, \<open>classIds\<close>, \<open>confidence_scores\<close>
    of the record \<open>candidates\<close>;
  \<^item> \<open>select_boxes\<close>: the loop over the indices kept by non-max suppression
    (lines 121--134): the subscripts of the box, the class id, the colour table
    (\<open>colors_shape\<close>, line 51, by its shape), the class name and the confidence,
    each raising \<open>IndexError\<close> out of range; \<open>detected_classNames\<close>, the detection
    list for the tracker with \<open>required_class_index.index(classId)\<close>;
  \<^item> \<open>track_and_count\<close>: lines 137--139, the tracker's update followed by
    \<open>count_vehicle\<close> on each tracked box;
  \<^item> \<open>postProcess\<close>: the whole function, with OpenCV's \<open>NMSBoxes\<close> and the
    tracker's \<open>update\<close> as parameters, over the state \<open>'t app_state\<close> of the
    module globals it touches (tracker, counter lists, \<open>detected_classNames\<close>).
\<close>

type_synonym box = "int \<times> int \<times> int \<times> int"

type_synonym nms_fn = "box list \<Rightarrow> real list \<Rightarrow> real \<Rightarrow> real \<Rightarrow> nat list"

record candidates =
  boxes :: "box list"
  classIds :: "nat list"
  confidence_scores :: "real list"

record 't app_state =
  trk :: 't
  counter :: counter_state
  detected_classNames :: "string list"

fun argmax_from :: "real list \<Rightarrow> nat \<Rightarrow> nat \<Rightarrow> real \<Rightarrow> nat" where
  "argmax_from [] i bi bv = bi"
| "argmax_from (x # xs) i bi bv =
     (if bv < x then argmax_from xs (Suc i) i x else argmax_from xs (Suc i) bi bv)"

definition np_argmax :: "real list \<Rightarrow> nat py_result" where
  "np_argmax xs = (case xs of [] \<Rightarrow> Inl ValueError | x # xs' \<Rightarrow> Inr (argmax_from xs' 1 0 x))"

definition empty_candidates :: candidates where
  "empty_candidates = \<lparr>boxes = [], classIds = [], confidence_scores = []\<rparr>"

definition det_candidate :: "nat \<Rightarrow> nat \<Rightarrow> real list \<Rightarrow> (box \<times> nat \<times> real) option py_result" where
  "det_candidate height width det =
     (let scores = drop 5 det in
      py_bind (np_argmax scores) (\<lambda>classId.
        let confidence = scores ! classId in
        if classId \<in> set required_class_index then
          if confidence > confThreshold then
            let w = py_int (det ! 2 * real width);
                h = py_int (det ! 3 * real height);
                x = py_int (det ! 0 * real width - real_of_int w / 2);
                y = py_int (det ! 1 * real height - real_of_int h / 2)
            in Inr (Some ((x, y, w, h), classId, confidence))
          else Inr None
        else Inr None))"

definition add_candidate :: "candidates \<Rightarrow> (box \<times> nat \<times> real) option \<Rightarrow> candidates" where
  "add_candidate c r =
     (case r of None \<Rightarrow> c
      | Some (b, cid, conf) \<Rightarrow>
          c\<lparr>boxes := boxes c @ [b], classIds := classIds c @ [cid],
            confidence_scores := confidence_scores c @ [conf]\<rparr>)"

fun scan_output :: "nat \<Rightarrow> nat \<Rightarrow> real list list \<Rightarrow> candidates \<Rightarrow> candidates py_result" where
  "scan_output height width [] c = Inr c"
| "scan_output height width (det # dets) c =
     py_bind (det_candidate height width det) (\<lambda>r. scan_output height width dets (add_candidate c r))"

fun scan_outputs :: "nat \<Rightarrow> nat \<Rightarrow> real list list list \<Rightarrow> candidates \<Rightarrow> candidates py_result" where
  "scan_outputs height width [] c = Inr c"
| "scan_outputs height width (output # outputs) c =
     py_bind (scan_output height width output c) (scan_outputs height width outputs)"

definition colors_shape :: "string list \<Rightarrow> unit list" where
  "colors_shape classNames = replicate (length classNames) ()"

fun select_boxes ::
  "string list \<Rightarrow> candidates \<Rightarrow> nat list \<Rightarrow> string list \<Rightarrow> detection list \<Rightarrow>
     (string list \<times> detection list) py_result" where
  "select_boxes classNames c [] names detection = Inr (names, detection)"
| "select_boxes classNames c (i # is) names detection =
     py_bind (py_get (boxes c) (int i)) (\<lambda>(x, y, w, h).
     py_bind (py_get (classIds c) (int i)) (\<lambda>classId.
     py_bind (py_get (colors_shape classNames) (int classId)) (\<lambda>color.
     py_bind (py_get classNames (int classId)) (\<lambda>name.
     py_bind (py_get (confidence_scores c) (int i)) (\<lambda>confidence.
     py_bind (py_index required_class_index classId) (\<lambda>index.
       select_boxes classNames c is (names @ [name]) (detection @ [(x, y, w, h, int index)])))))))"

definition track_and_count ::
  "'t tracker_update \<Rightarrow> 't \<times> counter_state \<Rightarrow> detection list \<Rightarrow> ('t \<times> counter_state) py_result" where
  "track_and_count update s detection =
     (case update (fst s) detection of
        (t', boxes_ids) \<Rightarrow> py_bind (count_boxes boxes_ids (snd s)) (\<lambda>cs. Inr (t', cs)))"

definition postProcess ::
  "'t tracker_update \<Rightarrow> nms_fn \<Rightarrow> string list \<Rightarrow> nat \<Rightarrow> nat \<Rightarrow> real list list list \<Rightarrow>
     't app_state \<Rightarrow> 't app_state py_result" where
  "postProcess update nms classNames height width outputs st =
     py_bind (scan_outputs height width outputs empty_candidates) (\<lambda>c.
       let indices = nms (boxes c) (confidence_scores c) confThreshold nmsThreshold in
       py_bind (select_boxes classNames c indices (detected_classNames st) []) (\<lambda>(names, detection).
         py_bind (track_and_count update (trk st, counter st) detection) (\<lambda>(t', cs).
           Inr (st\<lparr>trk := t', counter := cs, detected_classNames := names\<rparr>))))"

text \<open>
  The specification of \<open>np.argmax\<close>, the contracts of the two collaborators
  (OpenCV's suppression returns indices into the box list; the tracker keeps the
  class index of some input detection on each output) and the invariant of the
  parallel candidate lists.
\<close>

definition is_first_max :: "real list \<Rightarrow> nat \<Rightarrow> bool" where
  "is_first_max xs k \<longleftrightarrow>
     k < length xs \<and> (\<forall>j<length xs. xs ! j \<le> xs ! k) \<and> (\<forall>j<k. xs ! j < xs ! k)"

definition nms_sound :: "nms_fn \<Rightarrow> bool" where
  "nms_sound nms \<longleftrightarrow> (\<forall>bs ss a b. \<forall>i\<in>set (nms bs ss a b). i < length bs)"

definition update_class_sound :: "'t tracker_update \<Rightarrow> bool" where
  "update_class_sound update \<longleftrightarrow>
     (\<forall>t ds. set (map box_class (snd (update t ds))) \<subseteq> set (map det_class ds))"

definition cand_wf :: "candidates \<Rightarrow> bool" where
  "cand_wf c \<longleftrightarrow>
     length (boxes c) = length (classIds c) \<and> length (confidence_scores c) = length (classIds c) \<and>
     set (classIds c) \<subseteq> set required_class_index \<and> (\<forall>x\<in>set (confidence_scores c). confThreshold < x)"

lemmas det_eval = det_candidate_def np_argmax_def required_class_index_def confThreshold_def py_int_def Let_def

subsection \<open>argmax\<close>

lemma argmax_from_first_max:
  assumes "is_first_max ys bi" "length ys = i" "bv = ys ! bi"
  shows "is_first_max (ys @ xs) (argmax_from xs i bi bv)"
  using assms
proof (induction xs arbitrary: ys i bi bv)
  case Nil
  then show ?case by simp
next
  case (Cons x xs)
  show ?case
  proof (cases "bv < x")
    case True
    have "is_first_max (ys @ [x]) i"
      using Cons.prems True by (force simp: is_first_max_def nth_append less_Suc_eq)
    with Cons.IH [of "ys @ [x]" i "Suc i" x] Cons.prems True show ?thesis
      by (simp add: nth_append)
  next
    case False
    have "is_first_max (ys @ [x]) bi"
      using Cons.prems False by (force simp: is_first_max_def nth_append less_Suc_eq)
    with Cons.IH [of "ys @ [x]" bi "Suc i" bv] Cons.prems False show ?thesis
      by (simp add: nth_append is_first_max_def)
  qed
qed

lemma is_first_max_unique: "is_first_max xs k \<Longrightarrow> is_first_max xs k' \<Longrightarrow> k = k'"
  by (auto simp: is_first_max_def) (meson linorder_neqE_nat not_le)

lemma np_argmax_Inl: "np_argmax xs = Inl e \<longleftrightarrow> xs = [] \<and> e = ValueError"
  by (auto simp: np_argmax_def split: list.splits)

lemma np_argmax_Inr_less: "np_argmax xs = Inr k \<Longrightarrow> k < length xs"
proof (cases xs)
  case (Cons x xs')
  have "is_first_max [x] 0" by (simp add: is_first_max_def)
  then have "is_first_max ([x] @ xs') (argmax_from xs' 1 0 x)"
    by (rule argmax_from_first_max) simp_all
  moreover assume "np_argmax xs = Inr k"
  ultimately show ?thesis using Cons by (simp add: np_argmax_def is_first_max_def)
qed (simp add: np_argmax_def)

subsection \<open>One output row\<close>

lemma det_candidate_Some:
  "det_candidate height width det = Inr (Some (b, cid, conf)) \<Longrightarrow>
     cid \<in> set required_class_index \<and> confThreshold < conf"
  by (auto simp: det_candidate_def py_bind_eq_Inr Let_def split: if_splits)

lemma det_candidate_Some_box:
  "det_candidate height width det = Inr (Some ((x, y, w, h), cid, conf)) \<Longrightarrow>
     w = py_int (det ! 2 * real width) \<and> h = py_int (det ! 3 * real height) \<and>
     x = py_int (det ! 0 * real width - real_of_int w / 2) \<and>
     y = py_int (det ! 1 * real height - real_of_int h / 2)"
  by (auto simp: det_candidate_def py_bind_eq_Inr Let_def split: if_splits)

lemma det_candidate_Inl:
  "det_candidate height width det = Inl e \<longleftrightarrow> length det \<le> 5 \<and> e = ValueError"
proof (cases "length det \<le> 5")
  case True
  then have "drop 5 det = []" by simp
  then show ?thesis using True by (auto simp: det_candidate_def np_argmax_def)
next
  case False
  then obtain k where "np_argmax (drop 5 det) = Inr k"
    by (cases "np_argmax (drop 5 det)") (auto simp: np_argmax_Inl)
  with False show ?thesis
    by (simp add: det_candidate_def Let_def del: drop_eq_Nil)
qed

lemma add_candidate_wf:
  "cand_wf c \<Longrightarrow> det_candidate height width det = Inr r \<Longrightarrow> cand_wf (add_candidate c r)"
  by (cases r) (auto simp: add_candidate_def cand_wf_def dest: det_candidate_Some)

lemma scan_output_wf:
  "cand_wf c \<Longrightarrow> scan_output height width dets c = Inr c' \<Longrightarrow> cand_wf c'"
proof (induction dets arbitrary: c)
  case (Cons det dets)
  then show ?case by (auto simp: py_bind_eq_Inr dest: add_candidate_wf)
qed simp

lemma scan_output_ok:
  "\<forall>det\<in>set dets. 5 < length det \<Longrightarrow> \<exists>c'. scan_output height width dets c = Inr c'"
proof (induction dets arbitrary: c)
  case (Cons det dets)
  then obtain r where "det_candidate height width det = Inr r"
    by (cases "det_candidate height width det") (auto simp: det_candidate_Inl)
  with Cons show ?case by simp
qed simp

lemma scan_outputs_wf:
  "cand_wf c \<Longrightarrow> scan_outputs height width outputs c = Inr c' \<Longrightarrow> cand_wf c'"
proof (induction outputs arbitrary: c)
  case (Cons out outs)
  then show ?case by (auto simp: py_bind_eq_Inr dest: scan_output_wf)
qed simp

lemma scan_outputs_ok:
  "\<forall>out\<in>set outputs. \<forall>det\<in>set out. 5 < length det \<Longrightarrow>
     \<exists>c'. scan_outputs height width outputs c = Inr c'"
proof (induction outputs arbitrary: c)
  case (Cons out outs)
  from Cons.prems have "\<forall>det\<in>set out. 5 < length det" by simp
  then obtain c1 where "scan_output height width out c = Inr c1"
    using scan_output_ok by blast
  with Cons show ?case by simp
qed simp

lemma cand_wf_empty [simp]: "cand_wf empty_candidates"
  by (simp add: cand_wf_def empty_candidates_def)

subsection \<open>Selecting the suppressed boxes\<close>

lemma py_index_required_less:
  "py_index required_class_index cid = Inr k \<Longrightarrow> k < 4"
  using py_index_Inr [of required_class_index cid k] by (simp add: required_class_index_def)

declare colors_shape_def [py_simps]

lemma select_boxes_ok:
  assumes "cand_wf c" "\<forall>i\<in>set is. i < length (boxes c)" "8 \<le> length classNames"
  shows "\<exists>r. select_boxes classNames c is names detection = Inr r"
  using assms(2)
proof (induction "is" arbitrary: names detection)
  case (Cons i "is")
  from Cons.prems assms(1) have i: "i < length (classIds c)" "i < length (boxes c)"
    by (simp_all add: cand_wf_def)
  then have cid: "classIds c ! i \<in> set required_class_index"
    using assms(1) by (auto simp: cand_wf_def)
  then have "classIds c ! i < length classNames"
    using assms(3) by (auto simp: required_class_index_def)
  moreover obtain k where "py_index required_class_index (classIds c ! i) = Inr k"
    using py_index_ok [OF cid] by blast
  moreover obtain x y w h where "boxes c ! i = (x, y, w, h)"
    by (rule prod_cases4)
  moreover have "i < length (confidence_scores c)"
    using i assms(1) by (simp add: cand_wf_def)
  ultimately show ?case
    using i Cons by (simp add: py_get_def py_idx_nonneg colors_shape_def)
qed simp

lemma select_boxes_Cons_Inr:
  assumes "select_boxes classNames c (i # is) names detection = Inr r"
  obtains x y w h cid name k where "py_get (boxes c) (int i) = Inr (x, y, w, h)"
    "py_get (classIds c) (int i) = Inr cid" "py_get classNames (int cid) = Inr name"
    "py_index required_class_index cid = Inr k"
    "select_boxes classNames c is (names @ [name]) (detection @ [(x, y, w, h, int k)]) = Inr r"
proof -
  obtain bx where bx: "py_get (boxes c) (int i) = Inr bx"
    using assms by (cases "py_get (boxes c) (int i)") auto
  obtain x y w h where xywh: "bx = (x, y, w, h)" by (rule prod_cases4)
  obtain cid where cid: "py_get (classIds c) (int i) = Inr cid"
    using assms bx xywh by (cases "py_get (classIds c) (int i)") auto
  obtain color where color: "py_get (colors_shape classNames) (int cid) = Inr color"
    using assms bx xywh cid by (cases "py_get (colors_shape classNames) (int cid)") auto
  obtain name where name: "py_get classNames (int cid) = Inr name"
    using assms bx xywh cid color by (cases "py_get classNames (int cid)") auto
  obtain conf where conf: "py_get (confidence_scores c) (int i) = Inr conf"
    using assms bx xywh cid color name by (cases "py_get (confidence_scores c) (int i)") auto
  obtain k where k: "py_index required_class_index cid = Inr k"
    using assms bx xywh cid color name conf by (cases "py_index required_class_index cid") auto
  show ?thesis
    using that bx xywh cid color name conf k assms by simp
qed

lemma select_boxes_class:
  "select_boxes classNames c is names detection = Inr (names', detection') \<Longrightarrow>
     set (map det_class detection') \<subseteq> set (map det_class detection) \<union> {0..<4}"
proof (induction "is" arbitrary: names detection)
  case (Cons i "is")
  from Cons.prems show ?case
  proof (rule select_boxes_Cons_Inr)
    fix x y w h cid name k
    assume k: "py_index required_class_index cid = Inr k"
      and rest: "select_boxes classNames c is (names @ [name]) (detection @ [(x, y, w, h, int k)]) =
        Inr (names', detection')"
    from k have "k < 4" by (rule py_index_required_less)
    with Cons.IH [OF rest] show ?thesis by auto
  qed
qed simp

subsection \<open>The whole frame\<close>

lemma postProcess_intro:
  "scan_outputs height width outputs empty_candidates = Inr c \<Longrightarrow>
   select_boxes classNames c (nms (boxes c) (confidence_scores c) confThreshold nmsThreshold)
     (detected_classNames st) [] = Inr (names', dets) \<Longrightarrow>
   update (trk st) dets = (t', bids) \<Longrightarrow> count_boxes bids (counter st) = Inr cs \<Longrightarrow>
   postProcess update nms classNames height width outputs st =
     Inr (st\<lparr>trk := t', counter := cs, detected_classNames := names'\<rparr>)"
  by (simp add: postProcess_def track_and_count_def)

lemma postProcess_InrE:
  assumes "postProcess update nms classNames height width outputs st = Inr st'"
  obtains c names' dets t' bids cs where
    "scan_outputs height width outputs empty_candidates = Inr c"
    "select_boxes classNames c (nms (boxes c) (confidence_scores c) confThreshold nmsThreshold)
       (detected_classNames st) [] = Inr (names', dets)"
    "update (trk st) dets = (t', bids)" "count_boxes bids (counter st) = Inr cs"
    "st' = st\<lparr>trk := t', counter := cs, detected_classNames := names'\<rparr>"
proof -
  obtain c where c: "scan_outputs height width outputs empty_candidates = Inr c"
    using assms by (cases "scan_outputs height width outputs empty_candidates") (auto simp: postProcess_def track_and_count_def)
  obtain r where r: "select_boxes classNames c (nms (boxes c) (confidence_scores c) confThreshold nmsThreshold)
       (detected_classNames st) [] = Inr r"
    using assms c by (cases "select_boxes classNames c (nms (boxes c) (confidence_scores c) confThreshold nmsThreshold)
       (detected_classNames st) []") (auto simp: postProcess_def track_and_count_def)
  obtain names' dets where nd: "r = (names', dets)" by (rule prod.exhaust)
  obtain t' bids where u: "update (trk st) dets = (t', bids)" by (rule prod.exhaust)
  obtain cs where cs: "count_boxes bids (counter st) = Inr cs"
    using assms c r nd u by (cases "count_boxes bids (counter st)") (auto simp: postProcess_def track_and_count_def)
  have "st' = st\<lparr>trk := t', counter := cs, detected_classNames := names'\<rparr>"
    using assms c r nd u cs by (simp add: postProcess_def track_and_count_def)
  with that c r nd u cs show ?thesis by blast
qed

lemma postProcess_ok:
  assumes rows: "\<forall>out\<in>set outputs. \<forall>det\<in>set out. 5 < length det"
    and nms: "nms_sound nms" and names: "8 \<le> length classNames"
    and upd: "update_class_sound update"
    and up: "length (up_list (counter st)) = 4" and down: "length (down_list (counter st)) = 4"
  shows "\<exists>st'. postProcess update nms classNames height width outputs st = Inr st'"
proof -
  obtain c where c: "scan_outputs height width outputs empty_candidates = Inr c"
    using scan_outputs_ok [OF rows] by blast
  have wf: "cand_wf c" using scan_outputs_wf [OF cand_wf_empty c] .
  let ?is = "nms (boxes c) (confidence_scores c) confThreshold nmsThreshold"
  have "\<forall>i\<in>set ?is. i < length (boxes c)"
    using nms by (simp add: nms_sound_def)
  then obtain names' dets where
    sel: "select_boxes classNames c ?is (detected_classNames st) [] = Inr (names', dets)"
    using select_boxes_ok [OF wf _ names] by (metis surj_pair)
  obtain t' bids where u: "update (trk st) dets = (t', bids)"
    by (rule prod.exhaust)
  have "set (map box_class bids) \<subseteq> set (map det_class dets)"
    using upd u by (metis snd_conv update_class_sound_def)
  also have "\<dots> \<subseteq> {0..<4}"
    using select_boxes_class [OF sel] by simp
  finally obtain cs where "count_boxes bids (counter st) = Inr cs"
    using count_boxes_ok [of bids "counter st"] up down by fastforce
  with c sel u show ?thesis by (blast intro: postProcess_intro)
qed

subsection \<open>Properties of the post-processing\<close>

text \<open>
  C10. \<open>np_argmax\<close> returns exactly the first index of a maximal score: the
  fold with a strict comparison agrees with the declarative \<open>is_first_max\<close>.
\<close>

theorem np_argmax_first_max: "np_argmax xs = Inr k \<longleftrightarrow> is_first_max xs k"
proof (cases xs)
  case Nil
  then show ?thesis by (simp add: np_argmax_def is_first_max_def)
next
  case (Cons x xs')
  have "is_first_max [x] 0" by (simp add: is_first_max_def)
  then have "is_first_max ([x] @ xs') (argmax_from xs' 1 0 x)"
    by (rule argmax_from_first_max) simp_all
  with Cons show ?thesis
    by (auto simp: np_argmax_def dest: is_first_max_unique)
qed

text \<open>
  C11. The candidate lists the two detection loops build stay parallel
  (\<open>boxes\<close>, \<open>classIds\<close>, \<open>confidence_scores\<close> of equal length), every kept
  class is one of \<open>required_class_index\<close> and every kept confidence exceeds
  \<open>confThreshold\<close>.
\<close>

theorem scan_outputs_candidates_sound:
  "scan_outputs height width outputs empty_candidates = Inr c \<Longrightarrow> cand_wf c"
  by (rule scan_outputs_wf [OF cand_wf_empty])

theorem scan_outputs_candidates_sound_witness:
  "scan_outputs 416 416 [[[0.5, 0.5, 0.1, 0.2, 0.9, 0, 0, 0.7, 0.1], [0.5, 0.5, 0.1, 0.2, 0.9, 0.9, 0, 0, 0]]]
     empty_candidates = Inr \<lparr>boxes = [(187, 166, 41, 83)], classIds = [2], confidence_scores = [0.7]\<rparr> \<and>
   cand_wf \<lparr>boxes = [(187, 166, 41, 83)], classIds = [2], confidence_scores = [0.7]\<rparr>"
proof -
  have run: "scan_outputs 416 416 [[[0.5, 0.5, 0.1, 0.2, 0.9, 0, 0, 0.7, 0.1], [0.5, 0.5, 0.1, 0.2, 0.9, 0.9, 0, 0, 0]]]
     empty_candidates = Inr \<lparr>boxes = [(187, 166, 41, 83)], classIds = [2], confidence_scores = [0.7]\<rparr>"
    by (simp add: det_eval add_candidate_def empty_candidates_def)
  from scan_outputs_candidates_sound [OF run] run show ?thesis by simp
qed

text \<open>
  C12. A network output row raises exactly when it has at most five entries: then
  \<open>det[5:]\<close> is empty and \<open>np.argmax\<close> raises \<open>ValueError\<close>; every longer row
  is processed without error (kept or dropped).
\<close>

theorem det_candidate_error:
  "(\<exists>e. det_candidate height width det = Inl e) \<longleftrightarrow> length det \<le> 5"
  by (simp add: det_candidate_Inl)

text \<open>
  C13. Bounds: every detection that \<open>postProcess\<close> hands to the tracker carries a
  class index \<open>required_class_index.index(classId)\<close> in \<open>0..3\<close>, the range of
  the four counter entries.
\<close>

theorem select_boxes_class_bound:
  "select_boxes classNames c is names [] = Inr (names', detection) \<Longrightarrow>
     \<forall>d\<in>set detection. 0 \<le> det_class d \<and> det_class d < 4"
  using select_boxes_class [of classNames c "is" names "[]" names' detection] by auto

theorem select_boxes_class_bound_witness:
  "select_boxes [''person'', ''bicycle'', ''car'', ''motorbike'', ''aeroplane'', ''bus'', ''train'', ''truck'']
      \<lparr>boxes = [(187, 166, 41, 83)], classIds = [7], confidence_scores = [0.7]\<rparr> [0] [] [] =
     Inr ([''truck''], [(187, 166, 41, 83, 3)]) \<and>
   0 \<le> det_class (187, 166, 41, 83, 3) \<and> det_class (187, 166, 41, 83, (3::int)) < 4"
proof -
  have sel: "select_boxes [''person'', ''bicycle'', ''car'', ''motorbike'', ''aeroplane'', ''bus'', ''train'', ''truck'']
      \<lparr>boxes = [(187, 166, 41, 83)], classIds = [7], confidence_scores = [0.7]\<rparr> [0] [] [] =
     Inr ([''truck''], [(187, 166, 41, 83, 3)])"
    by (simp add: py_simps required_class_index_def)
  from select_boxes_class_bound [OF sel] sel show ?thesis by simp
qed

text \<open>
  C31. The centre the counter reads is the detector's predicted centre up to
  rounding: for a kept row with non-negative predicted size, \<open>find_center\<close> of the
  converted box (\<open>int()\<close> of the scaled size, then \<open>int()\<close> of the corner, then
  \<open>int(w / 2)\<close> back) is less than 1.5 pixels from \<open>det[0] * width\<close> and
  \<open>det[1] * height\<close> in each coordinate.
\<close>

theorem det_candidate_center_close:
  assumes kept: "det_candidate height width det = Inr (Some ((x, y, w, h), cid, conf))"
    and "0 \<le> det ! 2" and "0 \<le> det ! 3"
  shows "\<bar>real_of_int (fst (find_center x y w h)) - det ! 0 * real width\<bar> < 3 / 2 \<and>
         \<bar>real_of_int (snd (find_center x y w h)) - det ! 1 * real height\<bar> < 3 / 2"
proof -
  note box = det_candidate_Some_box [OF kept]
  have w: "0 \<le> w" and h: "0 \<le> h"
    using box assms(2,3) by (simp_all add: py_int_nonneg)
  have "\<bar>real_of_int (x + w div 2) - det ! 0 * real width\<bar> < 3 / 2"
    using center_coordinate_close [OF w, of "det ! 0 * real width - real_of_int w / 2"] box by simp
  moreover have "\<bar>real_of_int (y + h div 2) - det ! 1 * real height\<bar> < 3 / 2"
    using center_coordinate_close [OF h, of "det ! 1 * real height - real_of_int h / 2"] box by simp
  ultimately show ?thesis using w h by (simp add: find_center_nonneg)
qed
theorem det_candidate_center_close_witness:
  "det_candidate 416 416 [0.5, 0.5, 0.1, 0.2, 0.9, 0, 0, 0.7, 0.1] = Inr (Some ((187, 166, 41, 83), 2, 0.7)) \<and>
   \<bar>real_of_int (fst (find_center 187 166 41 83)) - 0.5 * real (416::nat)\<bar> < 3 / 2 \<and>
   \<bar>real_of_int (snd (find_center 187 166 41 83)) - 0.5 * real (416::nat)\<bar> < 3 / 2"
proof -
  have kept: "det_candidate 416 416 [0.5, 0.5, 0.1, 0.2, 0.9, 0, 0, 0.7, 0.1] =
      Inr (Some ((187, 166, 41, 83), 2, 0.7))"
    by (simp add: det_eval)
  have "0 \<le> [0.5, 0.5, 0.1, 0.2, 0.9, 0, 0, 0.7, 0.1 :: real] ! 2" "0 \<le> [0.5, 0.5, 0.1, 0.2, 0.9, 0, 0, 0.7, 0.1 :: real] ! 3"
    by simp_all
  from det_candidate_center_close [OF kept this] kept show ?thesis by simp
qed

end
