(* ===== verification/ClassNames.thy ===== *)
theory ClassNames
  imports Prelude
begin

text \<open>
  Loading the class names (lines 28--29 of \<open>src/vehicle_count.py\<close>):
  \<open>classNames = open(classesFile).read().strip().split('\n')\<close>.
  The file's characters are an input; \<open>read()\<close> in text mode translates the
  line endings \<open>\r\n\<close> and \<open>\r\<close> to \<open>\n\<close> (universal newlines,
  \<open>universal_newlines\<close>), \<open>str.strip()\<close> removes the characters for which
  \<open>str.isspace()\<close> holds at both ends (\<open>py_strip\<close>), and
  \<open>str.split('\n')\<close> cuts at every newline, keeping empty fields
  (\<open>py_split\<close>). A character stands for a code point below 256.
  The lemmas are the two round trips between a list of names and the text of
  a names file.
\<close>

abbreviation LF :: char where "LF \<equiv> CHR 0x0A"

abbreviation CR :: char where "CR \<equiv> CHR 0x0D"

definition py_isspace :: "char \<Rightarrow> bool" where
  "py_isspace c =
     (c \<in> set [CHR 0x09, CHR 0x0A, CHR 0x0B, CHR 0x0C, CHR 0x0D,
               CHR 0x1C, CHR 0x1D, CHR 0x1E, CHR 0x1F, CHR 0x20, CHR 0x85, CHR 0xA0])"

definition py_strip :: "string \<Rightarrow> string" where
  "py_strip s = rev (dropWhile py_isspace (rev (dropWhile py_isspace s)))"

fun py_split :: "char \<Rightarrow> string \<Rightarrow> string list" where
  "py_split d [] = [[]]"
| "py_split d (c # cs) =
     (let ws = py_split d cs in if c = d then [] # ws else (c # hd ws) # tl ws)"

fun universal_newlines :: "string \<Rightarrow> string" where
  "universal_newlines [] = []"
| "universal_newlines [c] = (if c = CR then [LF] else [c])"
| "universal_newlines (c # d # cs) =
     (if c = CR then (if d = LF then LF # universal_newlines cs else LF # universal_newlines (d # cs))
      else c # universal_newlines (d # cs))"

definition load_class_names :: "string \<Rightarrow> string list" where
  "load_class_names content = py_split LF (py_strip (universal_newlines content))"

fun py_join :: "char \<Rightarrow> string list \<Rightarrow> string" where
  "py_join d [] = []"
| "py_join d [w] = w"
| "py_join d (w # v # ws) = w @ d # py_join d (v # ws)"

definition names_file :: "string \<Rightarrow> string list \<Rightarrow> string" where
  "names_file eol names = concat (map (\<lambda>n. n @ eol) names)"

subsection \<open>Splitting and joining\<close>

lemma py_split_nonempty [simp]: "py_split d s \<noteq> []"
  by (induction s) (auto simp: Let_def)

lemma py_join_Cons_Cons [simp]: "py_join d ((c # w) # ws) = c # py_join d (w # ws)"
  by (cases ws) simp_all

lemma py_join_py_split: "py_join d (py_split d s) = s"
proof (induction s)
  case (Cons c cs)
  then show ?case
    by (cases "py_split d cs") (auto simp: Let_def)
qed simp

lemma py_split_append_sep:
  "d \<notin> set w \<Longrightarrow> py_split d (w @ d # s) = w # py_split d s"
  by (induction w) (auto simp: Let_def)

lemma py_split_no_sep: "d \<notin> set w \<Longrightarrow> py_split d w = [w]"
  by (induction w) (auto simp: Let_def)

lemma py_split_py_join:
  "ws \<noteq> [] \<Longrightarrow> \<forall>w\<in>set ws. d \<notin> set w \<Longrightarrow> py_split d (py_join d ws) = ws"
proof (induction ws)
  case (Cons w ws)
  then show ?case
    by (cases ws) (simp_all add: py_split_no_sep py_split_append_sep)
qed simp

subsection \<open>Stripping\<close>

lemma py_strip_append_space:
  assumes "s \<noteq> []" "\<not> py_isspace (hd s)" "\<not> py_isspace (last s)" "\<forall>c\<in>set t. py_isspace c"
  shows "py_strip (s @ t) = s"
proof -
  obtain u a where s: "s = u @ [a]" using assms(1) by (cases s rule: rev_cases) auto
  have "dropWhile py_isspace (s @ t) = s @ t"
    using assms(1,2) by (cases s) simp_all
  moreover have "dropWhile py_isspace (rev t @ a # rev u) = a # rev u"
    using assms(3,4) s by (subst dropWhile_append2) auto
  ultimately show ?thesis using s by (simp add: py_strip_def)
qed

subsection \<open>Line endings\<close>

lemma universal_newlines_Cons:
  "c \<noteq> CR \<Longrightarrow> universal_newlines (c # cs) = c # universal_newlines cs"
  by (cases cs) simp_all

lemma universal_newlines_append:
  "CR \<notin> set w \<Longrightarrow> universal_newlines (w @ s) = w @ universal_newlines s"
proof (induction w)
  case (Cons c w)
  then have "c \<noteq> CR" by auto
  with Cons show ?case by (simp add: universal_newlines_Cons)
qed simp

lemma universal_newlines_append_last:
  "w \<noteq> [] \<Longrightarrow> last w \<noteq> CR \<Longrightarrow> universal_newlines (w @ s) = universal_newlines w @ universal_newlines s"
proof (induction w rule: universal_newlines.induct)
  case (3 c d cs)
  then show ?case
    by (cases "c = CR"; cases "d = LF"; cases cs) (auto simp: universal_newlines_Cons)
qed (simp_all add: universal_newlines_Cons)

lemma universal_newlines_eol:
  assumes "eol \<in> {[LF], [CR, LF], [CR]}" "eol = [CR] \<Longrightarrow> s = [] \<or> hd s \<noteq> LF"
  shows "universal_newlines (eol @ s) = LF # universal_newlines s"
  using assms by (cases s) auto

lemma names_file_Cons: "names_file eol (n # ns) = n @ eol @ names_file eol ns"
  by (simp add: names_file_def)

lemma names_file_hd:
  assumes "eol = [CR]" "\<forall>n\<in>set ns. LF \<notin> set n"
  shows "names_file eol ns = [] \<or> hd (names_file eol ns) \<noteq> LF"
proof (cases ns)
  case (Cons a list)
  then show ?thesis
    using assms by (cases a) (auto simp: names_file_def)
qed (simp add: names_file_def)

lemma universal_newlines_names_file:
  assumes "eol \<in> {[LF], [CR, LF], [CR]}" "\<forall>n\<in>set ns. LF \<notin> set n \<and> CR \<notin> set n"
  shows "universal_newlines (names_file eol ns) = names_file [LF] ns"
  using assms(2)
proof (induction ns)
  case (Cons n ns)
  have "universal_newlines (eol @ names_file eol ns) = LF # universal_newlines (names_file eol ns)"
    using universal_newlines_eol [OF assms(1) names_file_hd] Cons.prems by auto
  with Cons show ?case by (simp add: names_file_Cons universal_newlines_append)
qed (simp add: names_file_def)

lemma names_file_LF: "ns \<noteq> [] \<Longrightarrow> names_file [LF] ns = py_join LF ns @ [LF]"
  by (induction ns rule: induct_list012) (simp_all add: names_file_def)

lemma py_join_head: "ns \<noteq> [] \<Longrightarrow> \<exists>q. py_join d ns = hd ns @ q"
  by (induction ns rule: induct_list012) auto

lemma py_join_tail: "ns \<noteq> [] \<Longrightarrow> \<exists>p. py_join d ns = p @ last ns"
  by (induction ns rule: induct_list012) auto

lemma py_join_hd: "hd ns \<noteq> [] \<Longrightarrow> ns \<noteq> [] \<Longrightarrow> hd (py_join d ns) = hd (hd ns)"
  using py_join_head [of ns d] by auto

lemma py_join_last:
  "last ns \<noteq> [] \<Longrightarrow> ns \<noteq> [] \<Longrightarrow> last (py_join d ns) = last (last ns)"
  using py_join_tail [of ns d] by auto

lemma py_join_nonempty: "hd ns \<noteq> [] \<Longrightarrow> ns \<noteq> [] \<Longrightarrow> py_join d ns \<noteq> []"
  using py_join_head [of ns d] by auto

lemma universal_newlines_no_CR: "CR \<notin> set (universal_newlines s)"
  by (induction s rule: universal_newlines.induct) auto

lemma set_py_strip: "set (py_strip s) \<subseteq> set s"
  by (auto simp: py_strip_def dest!: set_dropWhileD)

lemma py_split_parts: "w \<in> set (py_split d s) \<Longrightarrow> d \<notin> set w \<and> set w \<subseteq> set s"
proof (induction s arbitrary: w)
  case (Cons c cs)
  obtain v vs where ws: "py_split d cs = v # vs"
    using py_split_nonempty by (cases "py_split d cs") auto
  have v: "d \<notin> set v" "set v \<subseteq> set cs" using Cons.IH [of v] ws by simp_all
  have vs: "\<And>u. u \<in> set vs \<Longrightarrow> d \<notin> set u \<and> set u \<subseteq> set cs"
    by (metis Cons.IH ws list.set_intros(2))
  show ?case
  proof (cases "c = d")
    case True
    then show ?thesis using Cons.prems Cons.IH ws by (auto simp: Let_def)
  next
    case False
    then show ?thesis using Cons.prems ws v vs by (auto simp: Let_def)
  qed
qed simp

subsection \<open>Round trips\<close>

lemma load_class_names_names_file:
  assumes "eol \<in> {[LF], [CR, LF], [CR]}" "names \<noteq> []"
    and "\<forall>n\<in>set names. LF \<notin> set n \<and> CR \<notin> set n"
    and "hd names \<noteq> []" "\<not> py_isspace (hd (hd names))"
    and "last names \<noteq> []" "\<not> py_isspace (last (last names))"
  shows "load_class_names (names_file eol names) = names"
proof -
  have "universal_newlines (names_file eol names) = py_join LF names @ [LF]"
    using universal_newlines_names_file [OF assms(1,3)] names_file_LF [OF assms(2)] by simp
  moreover have "py_strip (py_join LF names @ [LF]) = py_join LF names"
    using assms(2,4-7)
    by (intro py_strip_append_space) (simp_all add: py_join_nonempty py_join_hd py_join_last py_isspace_def)
  moreover have "py_split LF (py_join LF names) = names"
    using assms(2,3) by (simp add: py_split_py_join)
  ultimately show ?thesis by (simp add: load_class_names_def)
qed

text \<open>
  C32: a names file written with one name per line, each line ended by
  \<open>\n\<close>, \<open>\r\n\<close> or \<open>\r\<close>, loads back to exactly its names, provided no name
  holds a line break and the file's first and last characters are not
  whitespace (middle names may be empty or padded).
\<close>

theorem load_class_names_roundtrip:
  assumes "eol \<in> {[LF], [CR, LF], [CR]}" "names \<noteq> []"
    and "\<forall>n\<in>set names. LF \<notin> set n \<and> CR \<notin> set n"
    and "hd names \<noteq> []" "\<not> py_isspace (hd (hd names))"
    and "last names \<noteq> []" "\<not> py_isspace (last (last names))"
  shows "load_class_names (names_file eol names) = names"
  using assms by (rule load_class_names_names_file)

theorem load_class_names_roundtrip_witness:
  "load_class_names (names_file [CR, LF] [''car'', ''motorbike'', [], ''bus'']) =
     [''car'', ''motorbike'', [], ''bus'']"
  by (rule load_class_names_roundtrip) (simp_all add: py_isspace_def)

text \<open>
  Conversely, every loaded name is free of line breaks, and joining the loaded
  names with \<open>\n\<close> gives back the file's text after line-ending translation and
  stripping: splitting loses nothing.
\<close>

lemma load_class_names_join:
  "py_join LF (load_class_names content) = py_strip (universal_newlines content) \<and>
   (\<forall>n\<in>set (load_class_names content). LF \<notin> set n \<and> CR \<notin> set n)"
proof -
  have "CR \<notin> set (py_strip (universal_newlines content))"
    using set_py_strip universal_newlines_no_CR by blast
  then show ?thesis
    unfolding load_class_names_def using py_split_parts by (fastforce simp: py_join_py_split)
qed

end
