(* ===== verification/Csv.thy ===== *)
theory Csv
  imports ClassNames
begin

text \<open>
  Writing the CSV row (lines 175--178 of \<open>src/vehicle_count.py\<close>):
  \<open>with open("static-data.csv", 'a') as f1: csv.writer(f1).writerow([...])\<close>.
  The file's text is the state: opening it in append mode and writing one row
  extends it (\<open>csv_append\<close>). The file is opened in text mode without
  \<open>newline=''\<close>, so every \<open>\n\<close> written goes through \<open>text_write\<close>, which
  replaces it by the platform's \<open>os.linesep\<close>: \<open>\n\<close> on POSIX systems,
  \<open>\r\n\<close> on Windows. \<open>csv.writer\<close> uses the default \<open>excel\<close> dialect:
  fields separated by commas, a field quoted only when it holds a comma, a double
  quote, \<open>\r\<close> or \<open>\n\<close> (\<open>QUOTE_MINIMAL\<close>), quotes inside a quoted field doubled,
  a single empty field written as \<open>""\<close>, and every row ended by \<open>\r\n\<close>
  (\<open>csv_field\<close>, \<open>csv_writerow\<close>). The counts are written with \<open>str()\<close>
  (\<open>py_str_nat\<close>, decimal digits, most significant first).

  The reader \<open>csv_scan\<close> is the state machine of the csv module's parser
  (start of field, unquoted field, quoted field, quote seen inside a quoted field),
  used to state what a consumer of the file reads back: \<open>csv_read_row\<close> reads one
  record ended by \<open>\r\n\<close>; a \<open>\r\<close> or \<open>\n\<close> outside quotes ends a record in
  the csv module, so a text holding one before its end is not a single record
  (\<open>None\<close>). \<open>digits_value\<close> reads a decimal numeral.
\<close>

abbreviation DQ :: char where "DQ \<equiv> CHR 0x22"

abbreviation COMMA :: char where "COMMA \<equiv> CHR 0x2C"

definition csv_special :: "char \<Rightarrow> bool" where
  "csv_special c \<longleftrightarrow> c = COMMA \<or> c = DQ \<or> c = CR \<or> c = LF"

definition csv_quote :: "string \<Rightarrow> string" where
  "csv_quote f = DQ # concat (map (\<lambda>c. if c = DQ then [DQ, DQ] else [c]) f) @ [DQ]"

definition csv_field :: "string \<Rightarrow> string" where
  "csv_field f = (if list_ex csv_special f then csv_quote f else f)"

definition csv_writerow :: "string list \<Rightarrow> string" where
  "csv_writerow fields =
     (if fields = [[]] then [DQ, DQ] else py_join COMMA (map csv_field fields)) @ [CR, LF]"

definition digit_char :: "nat \<Rightarrow> char" where
  "digit_char d = ''0123456789'' ! d"

function py_str_nat :: "nat \<Rightarrow> string" where
  "py_str_nat n = (if n < 10 then [digit_char n] else py_str_nat (n div 10) @ [digit_char (n mod 10)])"
  by pat_completeness auto

termination by (relation "measure id") auto

declare py_str_nat.simps [simp del]

definition static_csv_row :: "string \<times> nat list \<Rightarrow> string list" where
  "static_csv_row r = fst r # map py_str_nat (snd r)"

definition text_write :: "string \<Rightarrow> string \<Rightarrow> string" where
  "text_write linesep t = concat (map (\<lambda>c. if c = LF then linesep else [c]) t)"

definition csv_append :: "string \<Rightarrow> string \<Rightarrow> string \<times> nat list \<Rightarrow> string" where
  "csv_append linesep file r = file @ text_write linesep (csv_writerow (static_csv_row r))"

datatype csv_state = Start_field | In_field | In_quoted | Quote_in_quoted

fun csv_scan :: "csv_state \<Rightarrow> string \<Rightarrow> string list \<Rightarrow> string \<Rightarrow> string list option" where
  "csv_scan st f fs [] = (if st = In_quoted then None else Some (fs @ [f]))"
| "csv_scan Start_field f fs (c # cs) =
     (if c = DQ then csv_scan In_quoted f fs cs
      else if c = COMMA then csv_scan Start_field [] (fs @ [f]) cs
      else if c = CR \<or> c = LF then None
      else csv_scan In_field (f @ [c]) fs cs)"
| "csv_scan In_field f fs (c # cs) =
     (if c = COMMA then csv_scan Start_field [] (fs @ [f]) cs
      else if c = CR \<or> c = LF then None
      else csv_scan In_field (f @ [c]) fs cs)"
| "csv_scan In_quoted f fs (c # cs) =
     (if c = DQ then csv_scan Quote_in_quoted f fs cs else csv_scan In_quoted (f @ [c]) fs cs)"
| "csv_scan Quote_in_quoted f fs (c # cs) =
     (if c = DQ then csv_scan In_quoted (f @ [DQ]) fs cs
      else if c = COMMA then csv_scan Start_field [] (fs @ [f]) cs
      else None)"

definition csv_read_row :: "string \<Rightarrow> string list option" where
  "csv_read_row l =
     (if 2 \<le> length l \<and> drop (length l - 2) l = [CR, LF]
      then csv_scan Start_field [] [] (take (length l - 2) l) else None)"

definition digits_value :: "string \<Rightarrow> nat" where
  "digits_value s = foldl (\<lambda>a c. 10 * a + (of_char c - 48)) 0 s"


subsection \<open>Writing one field and reading it back\<close>

lemma csv_scan_in_field:
  "COMMA \<notin> set g \<Longrightarrow> CR \<notin> set g \<Longrightarrow> LF \<notin> set g \<Longrightarrow> csv_scan In_field acc fs (g @ rest) = csv_scan In_field (acc @ g) fs rest"
  by (induction g arbitrary: acc) auto

lemma csv_scan_quoted:
  "csv_scan In_quoted acc fs (concat (map (\<lambda>c. if c = DQ then [DQ, DQ] else [c]) f) @ DQ # rest) =
     csv_scan Quote_in_quoted (acc @ f) fs rest"
  by (induction f arbitrary: acc) auto

lemma csv_scan_field:
  obtains st where "st \<noteq> In_quoted" "st = Start_field \<Longrightarrow> f = []"
    "\<And>rest. csv_scan Start_field [] fs (csv_field f @ rest) = csv_scan st f fs rest"
proof (cases "list_ex csv_special f")
  case True
  then have "\<And>rest. csv_scan Start_field [] fs (csv_field f @ rest) = csv_scan Quote_in_quoted f fs rest"
    using csv_scan_quoted [of "[]" fs f] by (simp add: csv_field_def csv_quote_def)
  then show ?thesis using that by blast
next
  case False
  show ?thesis
  proof (cases f)
    case Nil
    show ?thesis by (rule that [of Start_field]) (simp_all add: Nil csv_field_def)
  next
    case (Cons c g)
    with False have "\<not> csv_special c" "COMMA \<notin> set g" "CR \<notin> set g" "LF \<notin> set g"
      by (auto simp: csv_special_def list_ex_iff)
    then have "\<And>rest. csv_scan Start_field [] fs (csv_field f @ rest) = csv_scan In_field f fs rest"
      using False Cons csv_scan_in_field [of g "[c]" fs] by (simp add: csv_field_def csv_special_def)
    then show ?thesis using that by blast
  qed
qed

lemma csv_scan_end:
  "st \<noteq> In_quoted \<Longrightarrow> (st = Start_field \<Longrightarrow> f = []) \<Longrightarrow>
     csv_scan st f fs [] = Some (fs @ [f]) \<and>
     csv_scan st f fs (COMMA # r) = csv_scan Start_field [] (fs @ [f]) r"
  by (cases st) auto

lemma csv_scan_fields:
  "fields \<noteq> [] \<Longrightarrow> csv_scan Start_field [] fs (py_join COMMA (map csv_field fields)) = Some (fs @ fields)"
proof (induction fields arbitrary: fs rule: induct_list012)
  case (2 f)
  obtain st where "st \<noteq> In_quoted" "st = Start_field \<Longrightarrow> f = []"
    "\<And>rest. csv_scan Start_field [] fs (csv_field f @ rest) = csv_scan st f fs rest"
    using csv_scan_field [where f = f and fs = fs] by blast
  then show ?case using csv_scan_end [of st f fs] by (metis append_Nil2 list.simps(8,9) py_join.simps(2))
next
  case (3 f g gs)
  obtain st where st: "st \<noteq> In_quoted" "st = Start_field \<Longrightarrow> f = []"
    "\<And>rest. csv_scan Start_field [] fs (csv_field f @ rest) = csv_scan st f fs rest"
    using csv_scan_field [where f = f and fs = fs] by blast
  have "csv_scan Start_field [] fs (py_join COMMA (map csv_field (f # g # gs))) =
      csv_scan Start_field [] (fs @ [f]) (py_join COMMA (map csv_field (g # gs)))"
    using st csv_scan_end [of st f fs] by simp
  with "3.IH"(2) [of "fs @ [f]"] show ?case by simp
qed simp

subsection \<open>Decimal numerals\<close>

lemma of_char_digit: "d < 10 \<Longrightarrow> of_char (digit_char d) = 48 + d"
  by (auto simp: digit_char_def less_Suc_eq numeral_eq_Suc)

lemma digit_char_not_special: "d < 10 \<Longrightarrow> \<not> csv_special (digit_char d)"
proof
  assume "d < 10" "csv_special (digit_char d)"
  then have "(of_char (digit_char d) :: nat) \<in> {44, 34, 13, 10}"
    by (auto simp: csv_special_def)
  with of_char_digit [OF \<open>d < 10\<close>] show False by auto
qed

lemma py_str_nat_digits: "set (py_str_nat n) \<subseteq> digit_char ` {..<10}"
proof (induction n rule: py_str_nat.induct)
  case (1 n)
  then show ?case by (subst py_str_nat.simps) auto
qed

lemma csv_field_py_str_nat [simp]: "csv_field (py_str_nat n) = py_str_nat n"
  using py_str_nat_digits [of n] digit_char_not_special
  by (fastforce simp: csv_field_def list_ex_iff)

lemma digits_value_snoc: "digits_value (s @ [c]) = 10 * digits_value s + (of_char c - 48)"
  by (simp add: digits_value_def)

lemma digits_value_py_str_nat: "digits_value (py_str_nat n) = n"
proof (induction n rule: py_str_nat.induct)
  case (1 n)
  show ?case
  proof (cases "n < 10")
    case True
    then show ?thesis by (simp add: digits_value_def of_char_digit py_str_nat.simps)
  next
    case False
    then have "digits_value (py_str_nat n) = 10 * (n div 10) + n mod 10"
      using "1" by (simp add: digits_value_snoc of_char_digit py_str_nat.simps [of n])
    then show ?thesis by simp
  qed
qed

lemma py_str_nat_nonempty [simp]: "py_str_nat n \<noteq> []"
  by (subst py_str_nat.simps) simp

subsection \<open>Rows\<close>

lemma csv_read_row_terminated: "csv_read_row (s @ [CR, LF]) = csv_scan Start_field [] [] s"
  by (simp add: csv_read_row_def)

lemma csv_read_writerow: "fields \<noteq> [] \<Longrightarrow> csv_read_row (csv_writerow fields) = Some fields"
proof (cases "fields = [[]]")
  case True
  then show ?thesis by (simp add: csv_writerow_def csv_read_row_def)
next
  case False
  assume "fields \<noteq> []"
  then show ?thesis
    using False csv_scan_fields [of fields "[]"] by (simp add: csv_writerow_def csv_read_row_terminated)
qed

subsection \<open>The platform's line separator\<close>

lemma text_write_posix [simp]: "text_write [LF] t = t"
  by (induction t) (simp_all add: text_write_def)

lemma text_write_append: "text_write sep (u @ v) = text_write sep u @ text_write sep v"
  by (simp add: text_write_def)

lemma text_write_no_LF: "LF \<notin> set t \<Longrightarrow> text_write sep t = t"
  by (induction t) (auto simp: text_write_def)

lemma LF_notin_csv_field: "LF \<notin> set f \<Longrightarrow> LF \<notin> set (csv_field f)"
  by (auto simp: csv_field_def csv_quote_def)

lemma LF_notin_py_join: "\<forall>w\<in>set ws. LF \<notin> set w \<Longrightarrow> LF \<notin> set (py_join COMMA ws)"
  by (induction ws rule: induct_list012) auto

lemma LF_notin_py_str_nat: "LF \<notin> set (py_str_nat n)"
  using py_str_nat_digits [of n] digit_char_not_special by (fastforce simp: csv_special_def)

lemma csv_scan_join_last:
  "csv_scan Start_field [] fs (py_join COMMA (map csv_field (gs @ [f])) @ rest) =
     csv_scan Start_field [] (fs @ gs) (csv_field f @ rest)"
proof (induction gs arbitrary: fs)
  case (Cons g gs)
  obtain st where st: "st \<noteq> In_quoted" "st = Start_field \<Longrightarrow> g = []"
    "\<And>rest. csv_scan Start_field [] fs (csv_field g @ rest) = csv_scan st g fs rest"
    using csv_scan_field [where f = g and fs = fs] by blast
  have "py_join COMMA (map csv_field ((g # gs) @ [f])) =
      csv_field g @ COMMA # py_join COMMA (map csv_field (gs @ [f]))"
    by (cases gs) simp_all
  then show ?case using st csv_scan_end [of st g fs] Cons.IH [of "fs @ [g]"] by simp
qed simp

lemma csv_scan_digits_CR:
  "csv_scan Start_field [] fs (py_str_nat n @ [CR]) = None"
proof -
  obtain c cs where n: "py_str_nat n = c # cs" by (cases "py_str_nat n") auto
  have "\<not> csv_special c" "\<forall>x\<in>set cs. \<not> csv_special x"
    using py_str_nat_digits [of n] digit_char_not_special n by auto
  then have "COMMA \<notin> set cs" "CR \<notin> set cs" "LF \<notin> set cs" "\<not> csv_special c"
    by (auto simp: csv_special_def)
  then show ?thesis
    using n csv_scan_in_field [of cs "[c]" fs "[CR]"] by (simp add: csv_special_def)
qed

lemma last_py_str_nat_not_CR: "last (py_str_nat n) \<noteq> CR"
  using py_str_nat_digits [of n] digit_char_not_special last_in_set [OF py_str_nat_nonempty, of n]
  by (fastforce simp: csv_special_def)

text \<open>
  C33. Round trip of the CSV writer: for every non-empty row, whatever characters
  its fields hold (commas, quotes, line breaks), the state-machine reader reads the
  text \<open>writerow\<close> produces back to exactly the row's fields.
\<close>

theorem csv_writerow_roundtrip:
  assumes "fields \<noteq> []"
  shows "csv_read_row (csv_writerow fields) = Some fields"
  using assms by (rule csv_read_writerow)

theorem csv_writerow_roundtrip_witness:
  "csv_writerow [''a,b'', [DQ], [], ''7''] = [DQ] @ ''a,b'' @ [DQ, COMMA, DQ, DQ, DQ, DQ, COMMA, COMMA] @ ''7'' @ [CR, LF] \<and>
   csv_read_row (csv_writerow [''a,b'', [DQ], [], ''7'']) = Some [''a,b'', [DQ], [], ''7'']"
  using csv_writerow_roundtrip [of "[''a,b'', [DQ], [], ''7'']"]
  by (simp add: csv_writerow_def csv_field_def csv_quote_def csv_special_def)


text \<open>
  C38. The row is written in text mode without \<open>newline=''\<close>, so on Windows (the
  platform of the path on line 182) the \<open>\r\n\<close> that \<open>csv.writer\<close> ends the row
  with becomes \<open>\r\r\n\<close>, where POSIX writes it unchanged. The Windows text is
  not one CSV record (the csv parser ends the record at the first \<open>\r\<close>), and read
  back in text mode (universal newlines) it is the row's line followed by an empty
  line: csv readers see a blank row after every row.
\<close>

theorem csv_append_windows_extra_cr:
  assumes "LF \<notin> set image_path" and "counts \<noteq> []"
  shows "\<exists>body. csv_append [LF] file (image_path, counts) = file @ body @ [CR, LF] \<and>
           csv_append [CR, LF] file (image_path, counts) = file @ body @ [CR, CR, LF] \<and>
           csv_read_row (body @ [CR, LF]) = Some (static_csv_row (image_path, counts)) \<and>
           csv_read_row (body @ [CR, CR, LF]) = None \<and>
           universal_newlines (body @ [CR, CR, LF]) = universal_newlines body @ [LF, LF]"
proof -
  obtain gs n where split: "static_csv_row (image_path, counts) = gs @ [py_str_nat n]"
    using assms(2) by (cases counts rule: rev_cases) (auto simp: static_csv_row_def)
  let ?body = "py_join COMMA (map csv_field (static_csv_row (image_path, counts)))"
  have nonsingle: "static_csv_row (image_path, counts) \<noteq> [[]]"
    using assms(2) by (cases counts) (auto simp: static_csv_row_def)
  have "\<forall>w\<in>set (map csv_field (static_csv_row (image_path, counts))). LF \<notin> set w"
    using LF_notin_csv_field [OF assms(1)] LF_notin_py_str_nat by (auto simp: static_csv_row_def)
  then have "LF \<notin> set ?body" by (rule LF_notin_py_join)
  then have win: "text_write [CR, LF] (csv_writerow (static_csv_row (image_path, counts))) =
      ?body @ [CR, CR, LF]"
    using nonsingle by (simp add: csv_writerow_def text_write_append text_write_no_LF)
       (simp add: text_write_def)
  have posix: "csv_writerow (static_csv_row (image_path, counts)) = ?body @ [CR, LF]"
    using nonsingle by (simp add: csv_writerow_def)
  have "csv_read_row (?body @ [CR, LF]) = Some (static_csv_row (image_path, counts))"
    using csv_read_writerow [of "static_csv_row (image_path, counts)"] posix
    by (simp add: static_csv_row_def)
  moreover have "csv_read_row (?body @ [CR, CR, LF]) = None"
    using csv_scan_join_last [of "[]" gs "py_str_nat n" "[CR]"] split
    by (simp add: csv_read_row_def csv_scan_digits_CR)
  moreover have "universal_newlines (?body @ [CR, CR, LF]) = universal_newlines ?body @ [LF, LF]"
  proof -
    obtain p where "?body = p @ py_str_nat n"
      using py_join_tail [of "map csv_field (gs @ [py_str_nat n])" COMMA] split by auto
    then show ?thesis
      using universal_newlines_append_last [of ?body "[CR, CR, LF]"] last_py_str_nat_not_CR [of n]
      by simp
  qed
  ultimately show ?thesis using win posix by (auto simp: csv_append_def)
qed

theorem csv_append_windows_extra_cr_witness:
  "csv_append [LF] [] (''I-80.jpg'', [1, 0, 0, 0]) = ''I-80.jpg,1,0,0,0'' @ [CR, LF] \<and>
   csv_append [CR, LF] [] (''I-80.jpg'', [1, 0, 0, 0]) = ''I-80.jpg,1,0,0,0'' @ [CR, CR, LF] \<and>
   csv_read_row (''I-80.jpg,1,0,0,0'' @ [CR, CR, LF]) = None"
proof -
  have eq: "csv_append [CR, LF] [] (''I-80.jpg'', [1, 0, 0, 0]) = ''I-80.jpg,1,0,0,0'' @ [CR, CR, LF]"
    "csv_append [LF] [] (''I-80.jpg'', [1, 0, 0, 0]) = ''I-80.jpg,1,0,0,0'' @ [CR, LF]"
    by (simp_all add: csv_append_def text_write_def csv_writerow_def static_csv_row_def csv_field_def
        csv_special_def py_str_nat.simps digit_char_def)
  from csv_append_windows_extra_cr [of "''I-80.jpg''" "[1, 0, 0, 0]" "[]"]
  obtain body where "csv_append [CR, LF] [] (''I-80.jpg'', [1, 0, 0, 0]) = [] @ body @ [CR, CR, LF]"
    "csv_read_row (body @ [CR, CR, LF]) = None"
    by auto
  with eq show ?thesis by simp
qed

end
