(* ===== verification/Report.thy ===== *)
theory Report
  imports PostProcess Csv
begin

text \<open>
  Reporting in \<open>from_static_image\<close> (lines 142--178 of \<open>src/vehicle_count.py\<close>):
  after one \<open>postProcess\<close>, \<open>collections.Counter(detected_classNames)\<close> is read at
  the four class names and written with the image name as one CSV row. Reading the
  image, the network's forward pass, drawing and \<open>imshow\<close> are I/O: the network's
  outputs are an input of \<open>from_static_image\<close> here (replacing lines 143--152) and
  the row is its result; the write of the row to the file (lines 175--178) is
  \<open>csv_append\<close> of \<open>Csv\<close>, applied by the entry point. \<open>coco_prefix\<close> is the head of \<open>coco.names\<close> up to \<open>truck\<close>.
\<close>

definition coco_prefix :: "string list" where
  "coco_prefix = [''person'', ''bicycle'', ''car'', ''motorbike'', ''aeroplane'', ''bus'', ''train'', ''truck'']"

definition class_label :: "int \<Rightarrow> string" where
  "class_label k = [''car'', ''motorbike'', ''bus'', ''truck''] ! nat k"

definition static_row :: "string \<Rightarrow> string list \<Rightarrow> string \<times> nat list" where
  "static_row image_path detected =
     (image_path, [count_list detected ''car'', count_list detected ''motorbike'',
              count_list detected ''bus'', count_list detected ''truck''])"

definition from_static_image ::
  "'t tracker_update \<Rightarrow> nms_fn \<Rightarrow> string list \<Rightarrow> string \<Rightarrow> nat \<Rightarrow> nat \<Rightarrow> real list list list \<Rightarrow>
     't app_state \<Rightarrow> ('t app_state \<times> (string \<times> nat list)) py_result" where
  "from_static_image update nms classNames image_path height width outputs st =
     py_bind (postProcess update nms classNames height width outputs st)
       (\<lambda>st'. Inr (st', static_row image_path (detected_classNames st')))"

subsection \<open>Names and class indices\<close>

lemma coco_name_label:
  assumes "take 8 classNames = coco_prefix" "cid \<in> set required_class_index"
    and "py_index required_class_index cid = Inr k"
  shows "classNames ! cid = class_label (int k)"
proof -
  have "cid < 8" using assms(2) by (auto simp: required_class_index_def)
  then have "classNames ! cid = coco_prefix ! cid"
    using assms(1) by (metis nth_take)
  with assms(2,3) show ?thesis
    by (auto simp: required_class_index_def coco_prefix_def class_label_def)
qed

lemma select_boxes_labels:
  assumes "cand_wf c" "take 8 classNames = coco_prefix"
    and "select_boxes classNames c is names dets = Inr (names', dets')"
  shows "\<exists>ds. dets' = dets @ ds \<and> names' = names @ map (class_label \<circ> det_class) ds"
  using assms(3)
proof (induction "is" arbitrary: names dets)
  case (Cons i "is")
  from Cons.prems show ?case
  proof (rule select_boxes_Cons_Inr)
    fix x y w h cid name k
    assume cid: "py_get (classIds c) (int i) = Inr cid" and name: "py_get classNames (int cid) = Inr name"
      and k: "py_index required_class_index cid = Inr k"
      and rest: "select_boxes classNames c is (names @ [name]) (dets @ [(x, y, w, h, int k)]) =
        Inr (names', dets')"
    have "cid \<in> set (classIds c)"
      using cid by (auto simp: py_simps split: if_splits)
    then have "cid \<in> set required_class_index" using assms(1) by (auto simp: cand_wf_def)
    moreover have "name = classNames ! cid"
      using name by (auto simp: py_simps split: if_splits)
    ultimately have "name = class_label (int k)" using coco_name_label [OF assms(2) _ k] by simp
    with Cons.IH [OF rest] show ?thesis by force
  qed
qed simp

lemma count_list_labels:
  "\<forall>d\<in>set ds. 0 \<le> det_class d \<and> det_class d < 4 \<Longrightarrow> k \<in> {0..<4} \<Longrightarrow>
     count_list (map (class_label \<circ> det_class) ds) (class_label k) = count_list (map det_class ds) k"
proof (induction ds)
  case (Cons d ds)
  have "class_label (det_class d) = class_label k \<longleftrightarrow> det_class d = k"
    using Cons.prems by (auto simp: class_label_def nth_Cons' split: if_splits)
  with Cons show ?case by simp
qed simp

subsection \<open>What the CSV row reports\<close>

lemma from_static_image_row_acc:
  assumes names: "take 8 classNames = coco_prefix"
    and run: "from_static_image update nms classNames image_path height width outputs st = Inr (st', row)"
  shows "\<exists>c dets. scan_outputs height width outputs empty_candidates = Inr c \<and>
           select_boxes classNames c (nms (boxes c) (confidence_scores c) confThreshold nmsThreshold)
             (detected_classNames st) [] = Inr (detected_classNames st', dets) \<and>
           detected_classNames st' = detected_classNames st @ map (class_label \<circ> det_class) dets \<and>
           row = (image_path, map (\<lambda>k. count_list (detected_classNames st) (class_label k) +
                                      count_list (map det_class dets) k) [0, 1, 2, 3])"
proof -
  from run have pp: "postProcess update nms classNames height width outputs st = Inr st'"
    and row: "row = static_row image_path (detected_classNames st')"
    by (auto simp: from_static_image_def py_bind_eq_Inr)
  from pp show ?thesis
  proof (rule postProcess_InrE)
    fix c names' dets t' bids cs
    assume c: "scan_outputs height width outputs empty_candidates = Inr c"
      and sel: "select_boxes classNames c (nms (boxes c) (confidence_scores c) confThreshold nmsThreshold)
        (detected_classNames st) [] = Inr (names', dets)"
      and st': "st' = st\<lparr>trk := t', counter := cs, detected_classNames := names'\<rparr>"
    have wf: "cand_wf c" using scan_outputs_wf [OF cand_wf_empty c] .
    have lab: "names' = detected_classNames st @ map (class_label \<circ> det_class) dets"
      using select_boxes_labels [OF wf names sel] by simp
    have rng: "\<forall>d\<in>set dets. 0 \<le> det_class d \<and> det_class d < 4"
      using select_boxes_class [OF sel] by auto
    have "count_list names' (class_label k) =
        count_list (detected_classNames st) (class_label k) + count_list (map det_class dets) k"
      if "k \<in> {0..<4}" for k
      using count_list_labels [OF rng that] lab by simp
    from this [of 0] this [of 1] this [of 2] this [of 3]
    have "static_row image_path names' =
        (image_path, map (\<lambda>k. count_list (detected_classNames st) (class_label k) +
                               count_list (map det_class dets) k) [0, 1, 2, 3])"
      by (simp add: static_row_def class_label_def)
    with c sel st' row lab show ?thesis by auto
  qed
qed

lemma from_static_image_row:
  assumes names: "take 8 classNames = coco_prefix" and fresh: "detected_classNames st = []"
    and run: "from_static_image update nms classNames image_path height width outputs st = Inr (st', row)"
  shows "\<exists>c dets. scan_outputs height width outputs empty_candidates = Inr c \<and>
           select_boxes classNames c (nms (boxes c) (confidence_scores c) confThreshold nmsThreshold) [] [] =
             Inr (detected_classNames st', dets) \<and>
           row = (image_path, map (count_list (map det_class dets)) [0, 1, 2, 3])"
  using from_static_image_row_acc [OF names run] fresh by fastforce

text \<open>
  C28. The row \<open>from_static_image\<close> writes (for a \<open>coco.names\<close> whose first eight
  entries are the COCO names) holds, for car, motorbike, bus and truck, the number of
  detections of that class that \<open>postProcess\<close> handed to the tracker in this frame,
  plus the number of that class's names already in the module-global
  \<open>detected_classNames\<close>, which grows by this frame's names and is never cleared:
  a per-class detection count, not the crossing counters \<open>up_list\<close>/\<open>down_list\<close>
  the specification's reporting reads, and cumulative over calls in one process.
\<close>

theorem from_static_image_row_counts_detections:
  assumes names: "take 8 classNames = coco_prefix"
    and run: "from_static_image update nms classNames image_path height width outputs st = Inr (st', row)"
  shows "\<exists>c dets. scan_outputs height width outputs empty_candidates = Inr c \<and>
           select_boxes classNames c (nms (boxes c) (confidence_scores c) confThreshold nmsThreshold)
             (detected_classNames st) [] = Inr (detected_classNames st', dets) \<and>
           detected_classNames st' = detected_classNames st @ map (class_label \<circ> det_class) dets \<and>
           row = (image_path, map (\<lambda>k. count_list (detected_classNames st) (class_label k) +
                                      count_list (map det_class dets) k) [0, 1, 2, 3])"
  using assms by (rule from_static_image_row_acc)

end
