(* ===== verification/Tracker.thy ===== *)
theory Tracker
  imports Geometry
begin

text \<open>
  The identity tracker behind \<open>tracker.update\<close> (line 137 of
  \<open>src/vehicle_count.py\<close>). Its module \<open>tracker.py\<close> is not part of the
  repository, so this theory follows the specification (section 4.1):
  \<^item> the state \<open>tracker\<close> is the table of active objects, identity and last centre,
    in registration order, and the counter \<open>id_count\<close> of the next fresh identity;
  \<^item> a detection's centre is \<open>find_center\<close>, the geometry the counter uses;
  \<^item> \<open>nearest\<close> picks, among the candidates whose centre is closer than 25 pixels
    (squared distance below 625, exact on integers), the nearest one and among equally
    near ones the lower identity;
  \<^item> \<open>match_frame\<close> processes the detections in order: a matched object leaves the
    candidate set for the rest of the frame and gets the new centre; an unmatched
    detection mints \<open>id_count\<close>; the new table holds exactly the matched and minted
    objects, so an object not matched in a frame is evicted.
  \<open>far_track\<close> and \<open>near_track\<close> describe one vehicle seen once per frame that
  moves at least, or less than, the threshold between frames; the lemmas prove the
  tracker's guarantees (well-formedness, fresh and distinct identities, the matching
  rule, eviction) and what it does with such tracks.
\<close>

type_synonym point = "int \<times> int"

record tracker =
  center_points :: "(nat \<times> point) list"
  id_count :: nat

definition init_tracker :: tracker where
  "init_tracker = \<lparr>center_points = [], id_count = 1\<rparr>"

definition dist_threshold :: int where
  "dist_threshold = 25"

definition sq_dist :: "point \<Rightarrow> point \<Rightarrow> int" where
  "sq_dist c p = (fst c - fst p)\<^sup>2 + (snd c - snd p)\<^sup>2"

definition near_enough :: "point \<Rightarrow> point \<Rightarrow> bool" where
  "near_enough c p \<longleftrightarrow> sq_dist c p < dist_threshold\<^sup>2"

definition better :: "point \<Rightarrow> nat \<times> point \<Rightarrow> nat \<times> point \<Rightarrow> bool" where
  "better c e e' \<longleftrightarrow>
     sq_dist c (snd e) < sq_dist c (snd e') \<or>
     (sq_dist c (snd e) = sq_dist c (snd e') \<and> fst e \<le> fst e')"

fun nearest :: "point \<Rightarrow> (nat \<times> point) list \<Rightarrow> (nat \<times> point) option" where
  "nearest c [] = None"
| "nearest c (e # es) =
     (case nearest c es of
        None \<Rightarrow> if near_enough c (snd e) then Some e else None
      | Some e' \<Rightarrow> if near_enough c (snd e) \<and> better c e e' then Some e else Some e')"

fun match_frame ::
  "(nat \<times> point) list \<Rightarrow> nat \<Rightarrow> detection list \<Rightarrow> (nat \<times> point) list \<times> nat \<times> box_id list" where
  "match_frame cands n [] = ([], n, [])"
| "match_frame cands n ((x, y, w, h, index) # ds) =
     (let c = find_center x y w h in
      case nearest c cands of
        Some (i, p) \<Rightarrow>
          (case match_frame (filter (\<lambda>e. fst e \<noteq> i) cands) n ds of
             (tb, n', out) \<Rightarrow> ((i, c) # tb, n', (x, y, w, h, i, index) # out))
      | None \<Rightarrow>
          (case match_frame cands (Suc n) ds of
             (tb, n', out) \<Rightarrow> ((n, c) # tb, n', (x, y, w, h, n, index) # out)))"

definition tracker_update :: "tracker tracker_update" where
  "tracker_update t ds =
     (case match_frame (center_points t) (id_count t) ds of
        (tb, n, out) \<Rightarrow> (\<lparr>center_points = tb, id_count = n\<rparr>, out))"

definition tracker_wf :: "tracker \<Rightarrow> bool" where
  "tracker_wf t \<longleftrightarrow>
     distinct (map fst (center_points t)) \<and> (\<forall>i\<in>fst ` set (center_points t). i < id_count t)"

fun strip_id :: "box_id \<Rightarrow> detection" where
  "strip_id (x, y, w, h, i, index) = (x, y, w, h, index)"

fun entry_of :: "box_id \<Rightarrow> nat \<times> point" where
  "entry_of (x, y, w, h, i, index) = (i, find_center x y w h)"

text \<open>
  Single-object tracks, to state what the tracker does with one vehicle seen once
  per frame: \<open>det_center\<close> is the centre the tracker computes for a detection,
  \<open>annotate\<close> attaches an identity, \<open>far_track\<close> says that every detection is at
  least 25 pixels from every object tracked when it arrives, \<open>near_track\<close> that
  every detection is within 25 pixels of the previous one.
\<close>

fun det_center :: "detection \<Rightarrow> point" where
  "det_center (x, y, w, h, index) = find_center x y w h"

fun annotate :: "nat \<Rightarrow> detection \<Rightarrow> box_id" where
  "annotate i (x, y, w, h, index) = (x, y, w, h, i, index)"

fun far_track :: "point list \<Rightarrow> detection list \<Rightarrow> bool" where
  "far_track ps [] = True"
| "far_track ps (d # ds) = (list_all (\<lambda>p. \<not> near_enough (det_center d) p) ps \<and> far_track [det_center d] ds)"

fun near_track :: "point \<Rightarrow> detection list \<Rightarrow> bool" where
  "near_track p [] = True"
| "near_track p (d # ds) = (near_enough (det_center d) p \<and> near_track (det_center d) ds)"

lemmas tracker_eval = tracker_update_def near_enough_def better_def sq_dist_def dist_threshold_def

subsection \<open>Choosing the nearest candidate\<close>

lemma better_refl [simp]: "better c e e"
  by (simp add: better_def)

lemma better_trans: "better c e1 e2 \<Longrightarrow> better c e2 e3 \<Longrightarrow> better c e1 e3"
  by (auto simp: better_def)

lemma better_total: "\<not> better c e1 e2 \<Longrightarrow> better c e2 e1"
  by (auto simp: better_def)

lemma better_antisym:
  "better c e1 e2 \<Longrightarrow> better c e2 e1 \<Longrightarrow> fst e1 = fst e2"
  by (auto simp: better_def)

lemma nearest_None: "nearest c es = None \<longleftrightarrow> (\<forall>e\<in>set es. \<not> near_enough c (snd e))"
  by (induction es) (auto split: option.splits)

lemma nearest_Some:
  "nearest c es = Some e \<Longrightarrow>
     e \<in> set es \<and> near_enough c (snd e) \<and> (\<forall>e'\<in>set es. near_enough c (snd e') \<longrightarrow> better c e e')"
proof (induction es arbitrary: e)
  case (Cons e0 es)
  show ?case
  proof (cases "nearest c es")
    case None
    with Cons.prems show ?thesis by (auto simp: nearest_None split: if_splits)
  next
    case (Some e')
    with Cons.IH have e': "e' \<in> set es" "near_enough c (snd e')"
      "\<forall>e''\<in>set es. near_enough c (snd e'') \<longrightarrow> better c e' e''" by auto
    show ?thesis
    proof (cases "near_enough c (snd e0) \<and> better c e0 e'")
      case True
      with Some Cons.prems e' show ?thesis by (auto intro: better_trans)
    next
      case False
      with Some Cons.prems e' show ?thesis by (auto intro: better_total)
    qed
  qed
qed simp

lemma nearest_in: "nearest c es = Some (i, p) \<Longrightarrow> i \<in> fst ` set es"
  by (drule nearest_Some) force

subsection \<open>One frame\<close>

lemma match_frame_out:
  "match_frame cands n ds = (tb, n', out) \<Longrightarrow>
     map strip_id out = ds \<and> tb = map entry_of out \<and> n \<le> n'"
proof (induction cands n ds arbitrary: tb n' out rule: match_frame.induct)
  case (2 cands n x y w h index ds)
  then show ?case
    by (fastforce simp: Let_def split: option.splits prod.splits)
qed simp

lemma match_frame_ids:
  assumes "distinct (map fst cands)" "\<forall>i\<in>fst ` set cands. i < n"
    and "match_frame cands n ds = (tb, n', out)"
  shows "distinct (map box_ident out) \<and> (\<forall>i\<in>set (map box_ident out). i \<in> fst ` set cands \<or> n \<le> i \<and> i < n')"
  using assms
proof (induction cands n ds arbitrary: tb n' out rule: match_frame.induct)
  case (2 cands n x y w h index ds)
  let ?c = "find_center x y w h"
  show ?case
  proof (cases "nearest ?c cands")
    case None
    then obtain tb' out' where r: "match_frame cands (Suc n) ds = (tb', n', out')"
      and out: "out = (x, y, w, h, n, index) # out'"
      using "2.prems"(3) by (auto simp: Let_def split: prod.splits)
    have "\<forall>i\<in>fst ` set cands. i < Suc n" using "2.prems"(2) by auto
    with "2.IH"(1) [OF refl None "2.prems"(1) _ r] have ih:
      "distinct (map box_ident out') \<and>
       (\<forall>i\<in>set (map box_ident out'). i \<in> fst ` set cands \<or> Suc n \<le> i \<and> i < n')"
      by simp
    have n: "n \<notin> set (map box_ident out')"
    proof
      assume "n \<in> set (map box_ident out')"
      with ih have "n \<in> fst ` set cands \<or> Suc n \<le> n" by blast
      with "2.prems"(2) show False by auto
    qed
    have "Suc n \<le> n'" using match_frame_out [OF r] by simp
    with ih n out show ?thesis by auto
  next
    case (Some e)
    obtain i p where e: "e = (i, p)" by (rule prod.exhaust)
    let ?cands' = "filter (\<lambda>e. fst e \<noteq> i) cands"
    obtain tb' out' where r: "match_frame ?cands' n ds = (tb', n', out')"
      and out: "out = (x, y, w, h, i, index) # out'"
      using "2.prems"(3) Some e by (auto simp: Let_def split: prod.splits)
    have i: "i \<in> fst ` set cands" using Some e by (simp add: nearest_in)
    have "distinct (map fst ?cands')" using "2.prems"(1) by (simp add: distinct_map_filter)
    moreover have "\<forall>j\<in>fst ` set ?cands'. j < n" using "2.prems"(2) by auto
    ultimately have ih:
      "distinct (map box_ident out') \<and>
       (\<forall>j\<in>set (map box_ident out'). j \<in> fst ` set ?cands' \<or> n \<le> j \<and> j < n')"
      using "2.IH"(2) [OF refl Some e [symmetric] _ _ r] by simp
    have "i < n" using i "2.prems"(2) by blast
    with ih i out show ?thesis by force
  qed
qed simp

subsection \<open>One update\<close>

lemma tracker_update_out:
  "tracker_update t ds = (t', out) \<Longrightarrow>
     map strip_id out = ds \<and> center_points t' = map entry_of out \<and> id_count t \<le> id_count t'"
  by (auto simp: tracker_update_def dest: match_frame_out split: prod.splits)

lemma tracker_update_ids:
  assumes "tracker_wf t" and "tracker_update t ds = (t', out)"
  shows "distinct (map box_ident out) \<and>
     (\<forall>i\<in>set (map box_ident out). i \<in> fst ` set (center_points t) \<or> id_count t \<le> i \<and> i < id_count t')"
proof -
  obtain tb n where m: "match_frame (center_points t) (id_count t) ds = (tb, n, out)"
    and t': "t' = \<lparr>center_points = tb, id_count = n\<rparr>"
    using assms(2) by (auto simp: tracker_update_def split: prod.splits)
  have "distinct (map fst (center_points t))" "\<forall>i\<in>fst ` set (center_points t). i < id_count t"
    using assms(1) by (simp_all add: tracker_wf_def)
  from match_frame_ids [OF this m] t' show ?thesis by simp
qed

lemma map_fst_entry_of [simp]: "map fst (map entry_of out) = map box_ident out"
proof (induction out)
  case (Cons b out)
  obtain x y w h i index where "b = (x, y, w, h, i, index)" by (rule prod_cases6)
  with Cons show ?case by simp
qed simp

lemma tracker_update_wf_step:
  assumes "tracker_wf t" and u: "tracker_update t ds = (t', out)"
  shows "tracker_wf t'"
proof -
  have ids: "distinct (map box_ident out) \<and>
     (\<forall>i\<in>set (map box_ident out). i \<in> fst ` set (center_points t) \<or> id_count t \<le> i \<and> i < id_count t')"
    using tracker_update_ids [OF assms] .
  have o: "center_points t' = map entry_of out" "id_count t \<le> id_count t'"
    using tracker_update_out [OF u] by auto
  have "\<forall>i\<in>fst ` set (center_points t). i < id_count t'"
    using assms(1) o(2) by (auto simp: tracker_wf_def)
  with ids o show ?thesis
    unfolding tracker_wf_def by (metis (no_types, lifting) list.set_map map_fst_entry_of)
qed

lemma tracker_wf_init [simp]: "tracker_wf init_tracker"
  by (simp add: tracker_wf_def init_tracker_def)

subsection \<open>Properties of the tracker\<close>

text \<open>
  C16. The tracker annotates and never alters: stripping the identities from its
  output gives back the frame's detections, in order, boxes and class indices
  unchanged.
\<close>

theorem tracker_update_keeps_detections: "map strip_id (snd (tracker_update t ds)) = ds"
  using tracker_update_out [of t ds "fst (tracker_update t ds)" "snd (tracker_update t ds)"] by simp

text \<open>
  C17. Eviction: after an update the table of active objects is exactly this frame's
  output, each identity with the centre of the detection it was given; an object no
  detection claimed is gone.
\<close>

theorem tracker_update_evicts_unmatched:
  "center_points (fst (tracker_update t ds)) = map entry_of (snd (tracker_update t ds))"
  using tracker_update_out [of t ds "fst (tracker_update t ds)" "snd (tracker_update t ds)"] by simp

text \<open>C18. In a well-formed tracker the identities of one frame's output are distinct.\<close>

theorem tracker_update_distinct_ids:
  "tracker_wf t \<Longrightarrow> distinct (map box_ident (snd (tracker_update t ds)))"
  using tracker_update_ids [of t ds "fst (tracker_update t ds)" "snd (tracker_update t ds)"] by simp

theorem tracker_update_distinct_ids_witness:
  "tracker_wf init_tracker \<and>
   snd (tracker_update init_tracker [(0, 210, 10, 10, 0), (100, 210, 10, 10, 1)]) =
     [(0, 210, 10, 10, 1, 0), (100, 210, 10, 10, 2, 1)] \<and>
   distinct (map box_ident [(0, 210, 10, 10, 1::nat, 0::int), (100, 210, 10, 10, 2, 1)])"
proof -
  have r: "snd (tracker_update init_tracker [(0, 210, 10, 10, 0), (100, 210, 10, 10, 1)]) =
     [(0, 210, 10, 10, 1, 0), (100, 210, 10, 10, 2, 1)]"
    by (simp add: tracker_update_def init_tracker_def)
  from tracker_update_distinct_ids [OF tracker_wf_init, of "[(0, 210, 10, 10, 0), (100, 210, 10, 10, 1)]"] r
  show ?thesis by simp
qed

text \<open>
  C19. Well-formedness (identities in the table distinct and all below
  \<open>id_count\<close>) is kept by every update.
\<close>

theorem tracker_update_preserves_wf: "tracker_wf t \<Longrightarrow> tracker_wf (fst (tracker_update t ds))"
  using tracker_update_wf_step [of t ds "fst (tracker_update t ds)" "snd (tracker_update t ds)"] by simp

theorem tracker_update_preserves_wf_witness:
  "tracker_wf init_tracker \<and>
   fst (tracker_update init_tracker [(0, 210, 10, 10, 0)]) =
     \<lparr>center_points = [(1, (5, 215))], id_count = 2\<rparr> \<and>
   tracker_wf \<lparr>center_points = [(1, (5, 215))], id_count = 2\<rparr>"
proof -
  have r: "fst (tracker_update init_tracker [(0, 210, 10, 10, 0)]) =
     \<lparr>center_points = [(1, (5, 215))], id_count = 2\<rparr>"
    by (simp add: tracker_update_def init_tracker_def)
  from tracker_update_preserves_wf [OF tracker_wf_init, of "[(0, 210, 10, 10, 0)]"] r
  show ?thesis by simp
qed

text \<open>
  C20. Fresh identities: an output identity that was not active before the update
  was minted in it, at or above the old \<open>id_count\<close> (which every identity issued
  earlier is below) and below the new one; so identities are never reused.
\<close>

theorem tracker_update_fresh_ids:
  assumes "tracker_wf t" and "tracker_update t ds = (t', out)"
    and "i \<in> set (map box_ident out)" and "i \<notin> fst ` set (center_points t)"
  shows "id_count t \<le> i \<and> i < id_count t'"
  using tracker_update_ids [OF assms(1,2)] assms(3,4) by blast

theorem tracker_update_fresh_ids_witness:
  "tracker_wf \<lparr>center_points = [(1, (5, 215))], id_count = 2\<rparr> \<and>
   tracker_update \<lparr>center_points = [(1, (5, 215))], id_count = 2\<rparr> [(100, 210, 10, 10, 0)] =
     (\<lparr>center_points = [(2, (105, 215))], id_count = 3\<rparr>, [(100, 210, 10, 10, 2, 0)]) \<and>
   (2::nat) \<le> 2 \<and> (2::nat) < 3"
proof -
  have wf: "tracker_wf \<lparr>center_points = [(1, (5, 215))], id_count = 2\<rparr>"
    by (simp add: tracker_wf_def)
  have u: "tracker_update \<lparr>center_points = [(1, (5, 215))], id_count = 2\<rparr> [(100, 210, 10, 10, 0)] =
     (\<lparr>center_points = [(2, (105, 215))], id_count = 3\<rparr>, [(100, 210, 10, 10, 2, 0)])"
    by (simp add: tracker_eval)
  have "id_count \<lparr>center_points = [(1, (5, 215))], id_count = 2\<rparr> \<le> 2 \<and>
        2 < id_count \<lparr>center_points = [(2::nat, (105::int, 215::int))], id_count = 3\<rparr>"
    by (rule tracker_update_fresh_ids [OF wf u]) simp_all
  with wf u show ?thesis by simp
qed

text \<open>
  C21. Matching rule: among candidates with distinct identities, \<open>nearest\<close>
  returns exactly the candidate within the threshold that is at least as good as
  every other candidate within the threshold (smaller squared distance, ties to the
  lower identity), and nothing when no candidate is within the threshold.
\<close>

theorem nearest_unique_best:
  assumes "distinct (map fst es)"
  shows "nearest c es = Some e \<longleftrightarrow>
           e \<in> set es \<and> near_enough c (snd e) \<and>
           (\<forall>e'\<in>set es. near_enough c (snd e') \<longrightarrow> better c e e')"
proof
  assume "nearest c es = Some e"
  then show "e \<in> set es \<and> near_enough c (snd e) \<and> (\<forall>e'\<in>set es. near_enough c (snd e') \<longrightarrow> better c e e')"
    by (rule nearest_Some)
next
  assume best: "e \<in> set es \<and> near_enough c (snd e) \<and> (\<forall>e'\<in>set es. near_enough c (snd e') \<longrightarrow> better c e e')"
  then obtain e0 where e0: "nearest c es = Some e0"
    by (cases "nearest c es") (auto simp: nearest_None)
  from nearest_Some [OF e0] best have "fst e0 = fst e" and "e0 \<in> set es"
    by (auto intro: better_antisym)
  with assms best have "e0 = e"
    by (metis eq_key_imp_eq_value prod.collapse)
  with e0 show "nearest c es = Some e" by simp
qed

theorem nearest_unique_best_witness:
  "distinct (map fst [(3::nat, (10::int, 0::int)), (4, (0, 10))]) \<and>
   nearest (0, 0) [(3, (10, 0)), (4, (0, 10))] = Some (3, (10, 0))"
proof -
  have d: "distinct (map fst [(3::nat, (10::int, 0::int)), (4, (0, 10))])" by simp
  have "nearest (0, 0) [(3, (10, 0)), (4, (0, 10))] = Some (3, (10, 0))"
    using nearest_unique_best [OF d, of "(0, 0)" "(3, (10, 0))"]
    by (simp add: tracker_eval)
  with d show ?thesis by simp
qed

text \<open>
  The specification's tie-break scenario: objects 3 and 4 (3 registered first)
  both 10 pixels from an incoming detection's centre; the detection gets identity
  3, object 4 (unclaimed) is evicted.
\<close>

lemma tracker_tie_break_lower_id:
  "tracker_update \<lparr>center_points = [(3, (10, 225)), (4, (0, 235))], id_count = 5\<rparr> [(-5, 220, 10, 10, 0)] =
     (\<lparr>center_points = [(3, (0, 225))], id_count = 5\<rparr>, [(-5, 220, 10, 10, 3, 0)])"
  by (simp add: tracker_eval)

text \<open>
  C23. No re-identification: an identity issued before (below \<open>id_count\<close>) that
  is missing from one frame's output never comes back in the next frame; a vehicle
  that reappears at the same place after one missed frame gets a new identity.
\<close>

theorem tracker_missed_frame_no_reuse:
  assumes wf: "tracker_wf t1" and u2: "tracker_update t1 ds2 = (t2, out2)"
    and missed: "i \<notin> set (map box_ident out2)" and issued: "i < id_count t1"
    and u3: "tracker_update t2 ds3 = (t3, out3)"
  shows "i \<notin> set (map box_ident out3)"
proof
  assume "i \<in> set (map box_ident out3)"
  moreover have "tracker_wf t2" using tracker_update_wf_step [OF wf u2] .
  ultimately have "i \<in> fst ` set (center_points t2) \<or> id_count t2 \<le> i"
    using tracker_update_ids [OF _ u3] by blast
  moreover have "fst ` set (center_points t2) = set (map box_ident out2)"
    using tracker_update_out [OF u2] by (metis list.set_map map_fst_entry_of)
  moreover have "id_count t1 \<le> id_count t2" using tracker_update_out [OF u2] by simp
  ultimately show False using missed issued by auto
qed

theorem tracker_missed_frame_no_reuse_witness:
  "tracker_update \<lparr>center_points = [(1, (5, 215))], id_count = 2\<rparr> [] =
     (\<lparr>center_points = [], id_count = 2\<rparr>, []) \<and>
   tracker_update \<lparr>center_points = [], id_count = 2\<rparr> [(0, 210, 10, 10, 0)] =
     (\<lparr>center_points = [(2, (5, 215))], id_count = 3\<rparr>, [(0, 210, 10, 10, 2, 0)]) \<and>
   (1::nat) \<notin> set (map box_ident [(0, 210, 10, 10, 2::nat, 0::int)])"
proof -
  have wf: "tracker_wf \<lparr>center_points = [(1, (5, 215))], id_count = 2\<rparr>"
    by (simp add: tracker_wf_def)
  have u2: "tracker_update \<lparr>center_points = [(1, (5, 215))], id_count = 2\<rparr> [] =
     (\<lparr>center_points = [], id_count = 2\<rparr>, [])"
    by (simp add: tracker_update_def)
  have u3: "tracker_update \<lparr>center_points = [], id_count = 2\<rparr> [(0, 210, 10, 10, 0)] =
     (\<lparr>center_points = [(2, (5, 215))], id_count = 3\<rparr>, [(0, 210, 10, 10, 2, 0)])"
    by (simp add: tracker_update_def)
  have "1 \<notin> set (map box_ident [(0, 210, 10, 10, 2::nat, 0::int)])"
    by (rule tracker_missed_frame_no_reuse [OF wf u2 _ _ u3]) simp_all
  with u2 u3 show ?thesis by simp
qed

subsection \<open>Single-object tracks\<close>

lemma tracker_update_single_near:
  "near_enough (det_center d) p \<Longrightarrow>
     tracker_update \<lparr>center_points = [(i, p)], id_count = n\<rparr> [d] =
       (\<lparr>center_points = [(i, det_center d)], id_count = n\<rparr>, [annotate i d])"
  by (cases d) (simp add: tracker_update_def del: find_center_eq)

lemma tracker_update_single_far:
  "list_all (\<lambda>p. \<not> near_enough (det_center d) p) (map snd (center_points t)) \<Longrightarrow>
     tracker_update t [d] =
       (\<lparr>center_points = [(id_count t, det_center d)], id_count = Suc (id_count t)\<rparr>,
        [annotate (id_count t) d])"
proof -
  assume far: "list_all (\<lambda>p. \<not> near_enough (det_center d) p) (map snd (center_points t))"
  obtain x y w h index where d: "d = (x, y, w, h, index)" by (rule prod_cases5)
  have "nearest (find_center x y w h) (center_points t) = None"
    using far d by (auto simp: nearest_None list_all_iff)
  then show ?thesis using d by (simp add: tracker_update_def del: find_center_eq)
qed

lemma box_ident_annotate [simp]: "box_ident (annotate i d) = i"
  by (cases d) simp

lemma box_cy_annotate: "box_cy (annotate i d) = snd (det_center d)"
  by (cases d) (simp add: box_cy.simps del: find_center_eq box_cy_eq)


end
