(* ===== verification/Spec2Isabelle.thy ===== *)
theory Spec2Isabelle
  imports Report Tracker
begin

text \<open>
  \<^bold>\<open>Vehicle counting with a YOLOv3 detector: a model of the tracking and counting core.\<close>

  \<^bold>\<open>The program.\<close> \<open>src/vehicle_count.py\<close> runs a YOLOv3 network on an image,
  keeps the detections of four COCO classes (car, motorbike, bus, truck), suppresses
  overlapping boxes, passes the kept boxes to a tracker (\<open>tracker.update\<close>, from a
  module \<open>tracker.py\<close> that is not part of the repository) and hands every tracked
  box to \<open>count_vehicle\<close>, which counts vehicles crossing a horizontal reference
  line, per class and per direction. \<open>from_static_image\<close> writes the per-class
  frequencies of the detected class names to a CSV file. The parts, in data-flow order:
  \<^item> configuration (lines 15--34): thresholds, the class names read from
    \<open>coco.names\<close> (line 29), the reference lines
    \<open>up_line_position < middle_line_position < down_line_position\<close> (210, 225, 240),
    \<open>required_class_index = [2, 3, 5, 7]\<close>;
  \<^item> detection post-processing, \<open>postProcess\<close> (lines 99--139): per output row the
    class by \<open>np.argmax\<close>, the class and confidence filter and the box conversion,
    OpenCV's non-max suppression, the detection list, then tracker and counter;
  \<^item> identity tracker, \<open>tracker.update\<close> (called at line 137);
  \<^item> crossing counter, \<open>count_vehicle\<close> (lines 71--95) over the module-level lists
    \<open>temp_up_list\<close>, \<open>temp_down_list\<close>, \<open>up_list\<close>, \<open>down_list\<close> (64--67);
  \<^item> reporting, \<open>from_static_image\<close> (lines 142--178), called once by the
    script's entry point (lines 181--182).
  The components share state only through module globals, which the model passes
  explicitly: the counter record, the tracker state and \<open>detected_classNames\<close> form
  \<open>'t app_state\<close>.

  \<^bold>\<open>Theories and how they correspond to the code.\<close>
  \<^item> \<open>Prelude\<close>: the Python primitives with their exceptions as values:
    \<open>int()\<close> of a float (\<open>py_int\<close>, truncation), subscripts with negative indices
    and \<open>IndexError\<close> (\<open>py_idx\<close>, \<open>py_get\<close>, \<open>py_incr\<close>),
    \<open>list.index\<close> with \<open>ValueError\<close> (\<open>py_index\<close>), sequencing
    (\<open>py_bind\<close>); shared lemmas on them and on lists (collection \<open>py_simps\<close>).
  \<^item> \<open>Geometry\<close>: the configuration constants, \<open>find_center\<close>, the tuples
    \<open>box_id\<close> \<open>(x, y, w, h, id, index)\<close> and \<open>detection\<close>
    \<open>(x, y, w, h, index)\<close>, and the tracker interface \<open>'t tracker_update\<close>.
  \<^item> \<open>ClassNames\<close>: line 29, \<open>open(...).read().strip().split('\n')\<close> on
    the text of the names file: text-mode newline translation
    (\<open>universal_newlines\<close>), \<open>str.strip\<close> (\<open>py_strip\<close>, Python's whitespace
    set below code point 256), \<open>str.split\<close> (\<open>py_split\<close>), composed as
    \<open>load_class_names\<close>; \<open>py_join\<close> and \<open>names_file\<close> write a names file
    for the round-trip statements.
  \<^item> \<open>Counter\<close>: \<open>counter_state\<close>, \<open>count_vehicle\<close> (a step returning the new
    state or \<open>IndexError\<close>; an exception ends the program, so the partly updated
    lists at that point are not modelled), \<open>count_boxes\<close> (lines 138--139). Above
    the code: \<open>band_of\<close> (the outcome of the \<open>if\<close>/\<open>elif\<close> chain),
    \<open>pending\<close> (an identity's two membership flags) and \<open>id_step\<close>, the
    four-state per-identity machine the flags follow; \<open>counter_reach\<close>, the
    inductive set of states reachable from the initial lists with their traces.
  \<^item> \<open>Tracker\<close>: modelled from the specification (section 4.1), since its source is
    absent: the table of active objects in registration order and \<open>id_count\<close>;
    \<open>nearest\<close> (squared distance below \<open>25\<^sup>2\<close>, nearest first, ties to the
    lower identity), \<open>match_frame\<close> (claimed objects leave the candidate set;
    unmatched detections mint \<open>id_count\<close>), \<open>tracker_update\<close> (the new table
    is the frame's output, so unmatched objects are evicted).
  \<^item> \<open>PostProcess\<close>: \<open>np_argmax\<close>, \<open>det_candidate\<close>, \<open>scan_output(s)\<close> (the
    nested loops over the three parallel \<open>candidates\<close> lists), \<open>select_boxes\<close>
    (the loop over suppression indices), \<open>track_and_count\<close> (lines 137--139) and
    \<open>postProcess\<close>, parametric in the suppression \<open>nms_fn\<close> and the tracker.
  \<^item> \<open>Csv\<close>: the write of lines 175--178: \<open>csv_field\<close> and \<open>csv_writerow\<close>
    (\<open>csv.writer\<close>'s default dialect: minimal quoting, doubled quotes, \<open>\r\n\<close>),
    \<open>py_str_nat\<close> (\<open>str()\<close> of a count, a \<^theory_text>\<open>function\<close> whose termination is
    proved by the measure \<open>n\<close>), \<open>text_write\<close> (a file opened in text mode
    without \<open>newline=''\<close> writes every \<open>\n\<close> as \<open>os.linesep\<close>, a
    parameter: \<open>\n\<close> on POSIX, \<open>\r\n\<close> on Windows), \<open>csv_append\<close> (append
    mode on the file's text); and, to state what a consumer reads, \<open>csv_scan\<close>, the
    csv module's parser as a four-state machine, and \<open>digits_value\<close>.
  \<^item> \<open>Report\<close>: \<open>static_row\<close> (the \<open>Counter\<close> lookups and CSV row) and
    \<open>from_static_image\<close> (post-processing, then the row), with the network's
    outputs as input.
  \<^item> this theory: \<open>static_main\<close>, the entry point (initial module state, names
    loaded from the file text, one \<open>from_static_image\<close>, its row appended to the
    CSV file's text); \<open>run_frames\<close>, the per-frame loop of the specification
    over a list of frames (the repository itself processes one image), and
    \<open>video_loop\<close>, the same loop reading a capture until it reports the end;
    the typing \<open>app_typed\<close> of the module state; the properties across components.

  \<^bold>\<open>What is proved.\<close>
  Counter (C1--C9): the code refines the per-identity machine \<open>id_step\<close> in every
  duplicate-free state (C1); counters never decrease (C2); an identity never seen in a
  near band contributes nothing (C3); counts plus pending entries grow by at most the
  number of near-band observations (C4); exceptions are exactly out-of-range class
  indices on a resolving observation (C6); observations are idempotent (C7); centres
  exactly on a line are ignored (C8); runs keep the pending lists duplicate-free (C9).
  Contrary to the specification, an identity that jitters across the line through all
  four bands becomes pending in both directions and is counted once up and once down,
  from any well-formed state (C5). Against the specification's three-state machine
  \<open>spec_step\<close> (an inductive relation in \<open>Counter\<close>) the code takes an allowed
  transition, with one count per resolution, everywhere except the two
  opposite-near-band transitions (C29); over whole runs each identity's flags depend
  only on its own observations (C30).
  Post-processing (C10--C15): \<open>np_argmax\<close> is the first maximal index (C10); the
  candidate lists stay parallel and filtered (C11); a row raises exactly when it has at
  most five entries (C12); class indices handed on are in \<open>0..3\<close> (C13); a frame with
  the modelled tracker raises nothing under the collaborators' contracts (C14); a
  single frame from a state without pending identities never counts (C15).
  Tracker (C16--C21, C23): boxes and classes pass through unchanged (C16); unmatched
  objects are evicted (C17); identities in a frame are distinct (C18); well-formedness
  is kept (C19); minted identities are fresh, never reused (C20); \<open>nearest\<close> is
  exactly the best candidate (C21); a missed object never gets its identity back (C23).
  Pipeline (C22, C24--C28): the capture loop returns on every capture that ends, with
  the result of \<open>run_frames\<close> over the frames read (C22); an object that moves 25
  pixels or more per frame gets a new identity every frame and is never counted,
  whatever the counter's state, so the specification's own scenario (30 pixels) counts
  nothing (C24); an object that moves less than 25 pixels per frame keeps its identity
  and is counted down once it passes from the near-up to the far-down band (C25);
  multi-frame runs keep all invariants and monotonicity (C26) and raise nothing for
  in-range classes (C27); the CSV row counts detections per class, not crossings, and
  cumulative over calls because \<open>detected_classNames\<close> is never cleared (C28).
  Rounding: the centre the counter reads is within 1.5 pixels of the network's
  predicted centre (C31).
  Round trips (C32--C33): a names file with one name per line and any of the three
  line endings loads back to its names (C32); every row \<open>csv.writer\<close> writes reads
  back to its fields, whatever characters they hold (C33).
  Progress and reachable states (C34--C35): a vehicle seen approaching from above and
  later leaving below is counted, whatever else is observed (C34); by rule induction
  over \<open>counter_reach\<close>, every reachable counter state is duplicate-free, has four
  buckets, has only pending identities observed in a near band, and has counts paid for
  by near and by far observations (C35).
  Whole program (C36--C38): one frame is type sound, progress and preservation of
  \<open>app_typed\<close> (C36); on POSIX the script's \<open>__main__\<close> on a standard names file
  raises nothing, appends one line to \<open>static-data.csv\<close>, and that line reads back
  as the image name and the per-class detection counts (C37); on Windows, the platform
  of the hard-coded \<open>C:/\<close> path, the same write ends the line \<open>\r\r\n\<close>, which a
  CSV reader does not read back as the row (C38).

  \<^bold>\<open>Bounds and fuel.\<close> Every loop of the program runs over a finite list (output
  rows, suppression indices, tracked boxes), so every operation of the script is a
  structural \<^theory_text>\<open>fun\<close> and total, except the digit recursion of \<open>str()\<close>,
  whose termination is proved by the measure \<open>n\<close>. The frame loop of the
  specification reads a capture that need not end: \<open>video_loop\<close> is a
  \<^theory_text>\<open>partial_function (option)\<close>, and C22 proves that it returns
  whenever the capture ends, so no fuel is needed. The
  counter lists have four entries; the error-freedom results carry that as a hypothesis
  and the invariants keep the lengths.

  \<^bold>\<open>Not modelled.\<close> The network, image decoding and blob creation, OpenCV's
  non-max suppression (a parameter, with the contract \<open>nms_sound\<close>), drawing,
  \<open>imshow\<close> and \<open>print\<close>; opening files: the text of \<open>coco.names\<close> is an input
  and the text of \<open>static-data.csv\<close> is the state the entry point extends; the
  platform enters only as \<open>os.linesep\<close>, the parameter of \<open>text_write\<close>.
  The values of the random colour table (line 51) only feed drawing; the table is
  kept by its shape (\<open>colors_shape\<close>), so its lookup at line 124 raises as in the
  code. Characters above code point 255 are outside
  the string model. Float32 arithmetic of the box conversion is exact real
  arithmetic, NaN scores are not modelled. OpenCV versions in which \<open>NMSBoxes\<close>
  returns an empty tuple (so that \<open>indices.flatten()\<close> raises) are outside the
  model.

  \<^bold>\<open>Further work.\<close> A declarative reference for the tracker's frame matching
  and its equivalence with \<open>match_frame\<close>; the exact reachable flag pairs of the
  code; functional correctness of \<open>det_candidate\<close> against \<open>is_first_max\<close>.
\<close>

section \<open>The pipeline: tracker and counter over frames\<close>

text \<open>
  The per-frame loop of the specification (section 2): each frame's detections go
  through \<open>track_and_count\<close> (lines 137--139) with the modelled tracker, in frame
  order. The repository's own entry point processes a single image
  (\<open>from_static_image\<close>); a video loop is not part of \<open>src/\<close>, so
  \<open>run_frames\<close> follows the specification.
\<close>

fun run_frames ::
  "'t tracker_update \<Rightarrow> 't \<times> counter_state \<Rightarrow> detection list list \<Rightarrow> ('t \<times> counter_state) py_result" where
  "run_frames update s [] = Inr s"
| "run_frames update s (ds # dss) = py_bind (track_and_count update s ds) (\<lambda>s'. run_frames update s' dss)"

text \<open>
  The same loop as it meets a capture device: \<open>cap i\<close> is what reading frame \<open>i\<close>
  yields, \<open>None\<close> once the stream has ended (\<open>success\<close> false). Nothing bounds
  the number of frames a capture delivers, so the loop is a
  \<^theory_text>\<open>partial_function\<close> in the option monad, \<open>None\<close> standing for a loop that
  never ends; an exception of a frame ends it with that exception.
\<close>

type_synonym capture = "nat \<Rightarrow> detection list option"

partial_function (option) video_loop ::
  "capture \<Rightarrow> nat \<Rightarrow> tracker \<times> counter_state \<Rightarrow> (tracker \<times> counter_state) py_result option" where
  "video_loop cap i s =
     (case cap i of
        None \<Rightarrow> Some (Inr s)
      | Some ds \<Rightarrow>
          (case track_and_count tracker_update s ds of
             Inl e \<Rightarrow> Some (Inl e)
           | Inr s' \<Rightarrow> video_loop cap (Suc i) s'))"

definition in_class_range :: "detection list list \<Rightarrow> bool" where
  "in_class_range dss \<longleftrightarrow> list_all (list_all (\<lambda>d. 0 \<le> det_class d \<and> det_class d < 4)) dss"

definition keep_all :: nms_fn where
  "keep_all bs ss a b = [0..<length bs]"

definition start_state :: "tracker app_state" where
  "start_state = \<lparr>trk = init_tracker, counter = init_counter, detected_classNames = []\<rparr>"

text \<open>
  The script's entry point (lines 181--182): the module state after its
  initialisation (\<open>start_state\<close>) with the class names loaded from the text of
  \<open>coco.names\<close>, one call of \<open>from_static_image\<close>, whose row is appended to the
  text of \<open>static-data.csv\<close> (lines 175--178) with the platform's line separator
  \<open>linesep\<close>.
\<close>

definition static_main ::
  "string \<Rightarrow> nms_fn \<Rightarrow> string \<Rightarrow> string \<Rightarrow> string \<Rightarrow> nat \<Rightarrow> nat \<Rightarrow> real list list list \<Rightarrow>
     (tracker app_state \<times> string) py_result" where
  "static_main linesep nms names_text csv_file image_path height width outputs =
     py_bind (from_static_image tracker_update nms (load_class_names names_text) image_path height width
                outputs start_state)
       (\<lambda>(st', row). Inr (st', csv_append linesep csv_file row))"

text \<open>
  The typing of the module's mutable state: the tracker's table is well formed,
  the counter's pending lists are duplicate-free and its count lists have the four
  buckets, and every name in \<open>detected_classNames\<close> is the name of a required class.
\<close>

definition required_names :: "string list \<Rightarrow> string set" where
  "required_names classNames = (\<lambda>cid. classNames ! cid) ` set required_class_index"

definition app_typed :: "string list \<Rightarrow> tracker app_state \<Rightarrow> bool" where
  "app_typed classNames st \<longleftrightarrow>
     tracker_wf (trk st) \<and> counter_wf (counter st) \<and>
     length (up_list (counter st)) = 4 \<and> length (down_list (counter st)) = 4 \<and>
     set (detected_classNames st) \<subseteq> required_names classNames"

lemma tracker_update_class_sound: "update_class_sound tracker_update"
  unfolding update_class_sound_def
proof (intro allI)
  fix t ds
  have "map strip_id (snd (tracker_update t ds)) = ds"
    using tracker_update_out [of t ds "fst (tracker_update t ds)" "snd (tracker_update t ds)"] by simp
  moreover have "map det_class (map strip_id bs) = map box_class bs" for bs
    by (induction bs) (auto split: prod.splits)
  ultimately show "set (map box_class (snd (tracker_update t ds))) \<subseteq> set (map det_class ds)"
    by (metis order_refl)
qed

lemma track_and_count_InrE:
  assumes "track_and_count update s ds = Inr s'"
  obtains bids where "update (fst s) ds = (fst s', bids)" "count_boxes bids (snd s) = Inr (snd s')"
  using assms by (auto simp: track_and_count_def py_bind_eq_Inr split: prod.splits)

lemma track_and_count_step:
  assumes "tracker_wf (fst s)" "counter_wf (snd s)" "track_and_count tracker_update s ds = Inr s'"
  shows "tracker_wf (fst s') \<and> counter_wf (snd s') \<and>
    list_all2 (\<le>) (up_list (snd s)) (up_list (snd s')) \<and>
    list_all2 (\<le>) (down_list (snd s)) (down_list (snd s')) \<and>
    length (up_list (snd s')) = length (up_list (snd s)) \<and>
    length (down_list (snd s')) = length (down_list (snd s))"
  using assms(3)
proof (rule track_and_count_InrE)
  fix bids
  assume u: "tracker_update (fst s) ds = (fst s', bids)" and c: "count_boxes bids (snd s) = Inr (snd s')"
  show ?thesis
    using tracker_update_wf_step [OF assms(1) u] count_boxes_wf [OF assms(2) c]
      count_boxes_step_mono [OF c] count_boxes_lengths [OF c] by simp
qed

lemma track_and_count_ok:
  assumes "list_all (\<lambda>d. 0 \<le> det_class d \<and> det_class d < 4) ds"
    and "length (up_list (snd s)) = 4" "length (down_list (snd s)) = 4"
  shows "\<exists>s'. track_and_count tracker_update s ds = Inr s'"
proof -
  obtain t' bids where u: "tracker_update (fst s) ds = (t', bids)" by (rule prod.exhaust)
  have "set (map box_class bids) \<subseteq> set (map det_class ds)"
    using tracker_update_class_sound u by (metis snd_conv update_class_sound_def)
  with assms obtain cs where "count_boxes bids (snd s) = Inr cs"
    using count_boxes_ok [of bids "snd s"] by (fastforce simp: list_all_iff)
  with u show ?thesis by (simp add: track_and_count_def)
qed

lemma track_and_count_lengths:
  "track_and_count update s ds = Inr s' \<Longrightarrow>
     length (up_list (snd s')) = length (up_list (snd s)) \<and>
     length (down_list (snd s')) = length (down_list (snd s))"
  by (erule track_and_count_InrE) (rule count_boxes_lengths)

lemma select_boxes_names:
  assumes "cand_wf c" "select_boxes classNames c is names dets = Inr (names', dets')"
  shows "set names' \<subseteq> set names \<union> required_names classNames"
  using assms(2)
proof (induction "is" arbitrary: names dets)
  case (Cons i "is")
  from Cons.prems show ?case
  proof (rule select_boxes_Cons_Inr)
    fix x y w h cid name k
    assume cid: "py_get (classIds c) (int i) = Inr cid" and name: "py_get classNames (int cid) = Inr name"
      and rest: "select_boxes classNames c is (names @ [name]) (dets @ [(x, y, w, h, int k)]) =
        Inr (names', dets')"
    have "cid \<in> set (classIds c)"
      using cid by (auto simp: py_simps split: if_splits)
    then have "cid \<in> set required_class_index" using assms(1) by (auto simp: cand_wf_def)
    moreover have "name = classNames ! cid"
      using name by (auto simp: py_simps split: if_splits)
    ultimately have "name \<in> required_names classNames" by (simp add: required_names_def)
    with Cons.IH [OF rest] show ?thesis by auto
  qed
qed simp

lemma postProcess_typed_step:
  assumes "app_typed classNames st" "postProcess tracker_update nms classNames height width outputs st = Inr st'"
  shows "app_typed classNames st'"
  using assms(2)
proof (rule postProcess_InrE)
  fix c names' dets t' bids cs
  assume c: "scan_outputs height width outputs empty_candidates = Inr c"
    and sel: "select_boxes classNames c (nms (boxes c) (confidence_scores c) confThreshold nmsThreshold)
       (detected_classNames st) [] = Inr (names', dets)"
    and u: "tracker_update (trk st) dets = (t', bids)" and cs: "count_boxes bids (counter st) = Inr cs"
    and st': "st' = st\<lparr>trk := t', counter := cs, detected_classNames := names'\<rparr>"
  have "set names' \<subseteq> required_names classNames"
    using select_boxes_names [OF scan_outputs_wf [OF cand_wf_empty c] sel] assms(1)
    by (auto simp: app_typed_def)
  then show ?thesis
    using assms(1) st' tracker_update_wf_step [OF _ u] count_boxes_wf [OF _ cs] count_boxes_lengths [OF cs]
    by (simp add: app_typed_def)
qed

lemma video_loop_run_frames:
  assumes "\<forall>j<k. cap (i + j) \<noteq> None" and "cap (i + k) = None"
  shows "video_loop cap i s = Some (run_frames tracker_update s (map (\<lambda>j. the (cap (i + j))) [0..<k]))"
  using assms
proof (induction k arbitrary: i s)
  case 0
  then show ?case by (simp add: video_loop.simps)
next
  case (Suc k)
  then obtain ds where ds: "cap i = Some ds" by (metis add_0_right zero_less_Suc option.exhaust)
  have rest: "map (\<lambda>j. the (cap (i + j))) [0..<Suc k] = ds # map (\<lambda>j. the (cap (Suc i + j))) [0..<k]"
    using ds by (simp add: map_upt_Suc del: upt_Suc)
  have IH: "video_loop cap (Suc i) s' = Some (run_frames tracker_update s' (map (\<lambda>j. the (cap (Suc i + j))) [0..<k]))"
    for s'
    using Suc.prems by (intro Suc.IH) auto
  show ?case
  proof (cases "track_and_count tracker_update s ds")
    case (Inl e)
    then show ?thesis using ds rest by (simp add: video_loop.simps)
  next
    case (Inr s')
    then show ?thesis using ds rest IH by (simp add: video_loop.simps)
  qed
qed

lemma track_and_count_single:
  "track_and_count update s [d] =
     (case update (fst s) [d] of (t', bids) \<Rightarrow> py_bind (count_boxes bids (snd s)) (\<lambda>cs. Inr (t', cs)))"
  by (simp add: track_and_count_def)

lemma run_frames_far_track:
  assumes "far_track (map snd (center_points t)) ds"
    and "set (temp_up_list s) \<union> set (temp_down_list s) \<subseteq> {..<id_count t}"
  shows "\<exists>t' s'. run_frames tracker_update (t, s) (map (\<lambda>d. [d]) ds) = Inr (t', s') \<and>
           up_list s' = up_list s \<and> down_list s' = down_list s"
  using assms
proof (induction ds arbitrary: t s)
  case (Cons d ds)
  let ?n = "id_count t" and ?T = "\<lparr>center_points = [(id_count t, det_center d)], id_count = Suc (id_count t)\<rparr>"
  have far: "list_all (\<lambda>p. \<not> near_enough (det_center d) p) (map snd (center_points t))"
    and rest: "far_track [det_center d] ds"
    using Cons.prems(1) by simp_all
  have tu: "tracker_update t [d] = (?T, [annotate ?n d])"
    using tracker_update_single_far [OF far] .
  have unp: "pending s (box_ident (annotate ?n d)) = (False, False)"
    using Cons.prems(2) by (auto simp: pending_def)
  then obtain s1 where s1: "count_vehicle (annotate ?n d) s = Inr s1"
    using count_vehicle_unpending_ok by blast
  have same: "up_list s1 = up_list s \<and> down_list s1 = down_list s"
    using count_vehicle_unpending [OF unp s1] .
  have "set (temp_up_list s1) \<union> set (temp_down_list s1) \<subseteq> {..<id_count ?T}"
    using count_vehicle_pending_ids [OF s1] Cons.prems(2)
    by (fastforce simp: subset_iff less_Suc_eq split: if_splits)
  moreover have "far_track (map snd (center_points ?T)) ds" using rest by simp
  ultimately obtain t' s' where r: "run_frames tracker_update (?T, s1) (map (\<lambda>d. [d]) ds) = Inr (t', s')"
    and eq: "up_list s' = up_list s1 \<and> down_list s' = down_list s1"
    using Cons.IH by blast
  have "run_frames tracker_update (t, s) (map (\<lambda>d. [d]) (d # ds)) = Inr (t', s')"
    using tu s1 r by (simp add: track_and_count_single)
  with eq same show ?case by auto
qed simp

lemma run_frames_near_track:
  assumes "near_track p ds"
    and "run_frames tracker_update (\<lparr>center_points = [(i, p)], id_count = n\<rparr>, s) (map (\<lambda>d. [d]) ds) =
      Inr (t', s')"
  shows "count_boxes (map (annotate i) ds) s = Inr s'"
  using assms
proof (induction ds arbitrary: p s)
  case (Cons d ds)
  have near: "near_enough (det_center d) p" and rest: "near_track (det_center d) ds"
    using Cons.prems(1) by simp_all
  have tu: "tracker_update \<lparr>center_points = [(i, p)], id_count = n\<rparr> [d] =
      (\<lparr>center_points = [(i, det_center d)], id_count = n\<rparr>, [annotate i d])"
    using tracker_update_single_near [OF near] .
  from Cons.prems(2) tu obtain s1 where s1: "count_vehicle (annotate i d) s = Inr s1"
    and r: "run_frames tracker_update (\<lparr>center_points = [(i, det_center d)], id_count = n\<rparr>, s1)
      (map (\<lambda>d. [d]) ds) = Inr (t', s')"
    by (auto simp: track_and_count_single py_bind_eq_Inr)
  from Cons.IH [OF rest r] s1 show ?case by simp
qed simp

section \<open>Properties across components\<close>

text \<open>
  C14. Error freedom of \<open>postProcess\<close> with the modelled tracker: for output rows of
  more than five entries, a suppression that returns indices into its box list, at
  least the first eight COCO names, and counter lists of four entries, a frame raises
  no exception: every class index reaching \<open>up_list[index]\<close> is in \<open>0..3\<close>.
\<close>

theorem postProcess_tracker_no_error:
  assumes "\<forall>out\<in>set outputs. \<forall>det\<in>set out. 5 < length det" and "nms_sound nms"
    and "8 \<le> length classNames"
    and "length (up_list (counter st)) = 4" and "length (down_list (counter st)) = 4"
  shows "\<exists>st'. postProcess tracker_update nms classNames height width outputs st = Inr st'"
  using postProcess_ok [OF assms(1-3) tracker_update_class_sound assms(4,5)] .

theorem postProcess_tracker_no_error_witness:
  "\<exists>st'. postProcess tracker_update keep_all coco_prefix 416 416
      [[[0.5, 0.5, 0.1, 0.2, 0.9, 0, 0, 0.7, 0.1]]] start_state = Inr st'"
proof -
  have rows: "\<forall>out\<in>set [[[0.5, 0.5, 0.1, 0.2, 0.9, 0, 0, 0.7, 0.1 :: real]]]. \<forall>det\<in>set out. 5 < length det"
    by simp
  have nms: "nms_sound keep_all" by (simp add: nms_sound_def keep_all_def)
  have names: "8 \<le> length coco_prefix" by (simp add: coco_prefix_def)
  have "length (up_list (counter start_state)) = 4" "length (down_list (counter start_state)) = 4"
    by (simp_all add: start_state_def init_counter_def)
  from postProcess_tracker_no_error [OF rows nms names this] show ?thesis .
qed

text \<open>
  C15. A single frame never counts: from a counter with no pending identity (such as
  the initial one) and a well-formed tracker, one \<open>postProcess\<close> leaves
  \<open>up_list\<close> and \<open>down_list\<close> unchanged, because the tracker gives the frame's
  boxes distinct identities and a count needs an earlier near-band observation of the
  same identity. \<open>from_static_image\<close>, the repository's entry point, runs exactly
  one such frame, so its crossing counters stay zero; the CSV row it writes counts
  detected class names instead.
\<close>

theorem postProcess_fresh_no_crossing:
  assumes wf: "tracker_wf (trk st)"
    and up: "temp_up_list (counter st) = []" and down: "temp_down_list (counter st) = []"
    and run: "postProcess tracker_update nms classNames height width outputs st = Inr st'"
  shows "up_list (counter st') = up_list (counter st) \<and> down_list (counter st') = down_list (counter st)"
  using run
proof (rule postProcess_InrE)
  fix c names' dets t' bids cs
  assume u: "tracker_update (trk st) dets = (t', bids)"
    and cnt: "count_boxes bids (counter st) = Inr cs"
    and st': "st' = st\<lparr>trk := t', counter := cs, detected_classNames := names'\<rparr>"
  have "distinct (map box_ident bids)" using tracker_update_ids [OF wf u] by simp
  moreover have "\<forall>b\<in>set bids. pending (counter st) (box_ident b) = (False, False)"
    using up down by (simp add: pending_def)
  ultimately show ?thesis using count_boxes_fresh_unchanged [OF _ _ cnt] st' by simp
qed

theorem postProcess_fresh_no_crossing_witness:
  "tracker_wf (trk start_state) \<and> temp_up_list (counter start_state) = [] \<and>
   temp_down_list (counter start_state) = [] \<and>
   postProcess tracker_update keep_all coco_prefix 416 416 [[[0.5, 0.5, 0.1, 0.2, 0.9, 0, 0, 0.7, 0.1]]] start_state =
     Inr (start_state\<lparr>trk := \<lparr>center_points = [(1, (207, 207))], id_count = 2\<rparr>,
                       detected_classNames := [''car'']\<rparr>) \<and>
   up_list (counter start_state) = [0, 0, 0, 0] \<and> down_list (counter start_state) = [0, 0, 0, 0]"
proof -
  have wf: "tracker_wf (trk start_state)" by (simp add: start_state_def)
  have e: "temp_up_list (counter start_state) = []" "temp_down_list (counter start_state) = []"
    by (simp_all add: start_state_def init_counter_def)
  have run: "postProcess tracker_update keep_all coco_prefix 416 416 [[[0.5, 0.5, 0.1, 0.2, 0.9, 0, 0, 0.7, 0.1]]] start_state =
     Inr (start_state\<lparr>trk := \<lparr>center_points = [(1, (207, 207))], id_count = 2\<rparr>,
                       detected_classNames := [''car'']\<rparr>)"
    by (simp add: postProcess_def track_and_count_def det_eval add_candidate_def
        empty_candidates_def keep_all_def coco_prefix_def py_simps start_state_def init_tracker_def
        tracker_update_def init_counter_def count_vehicle.simps)
  from postProcess_fresh_no_crossing [OF wf e run] wf e run show ?thesis
    by (simp add: start_state_def init_counter_def)
qed

text \<open>
  C24. An object that moves 25 pixels or more between consecutive frames is never
  counted: for a vehicle seen once per frame whose every detection is at least the
  threshold away from every object tracked when it arrives, each frame mints a fresh
  identity, seen once, so the whole run raises nothing and leaves \<open>up_list\<close> and
  \<open>down_list\<close> unchanged, from any counter state whose pending identities were
  issued before. The specification's own scenario (centres 213 then 243, 30 pixels
  apart) is such a run, so its "matched to ID 1, counted once down" cannot happen.
\<close>

theorem fast_object_never_counted:
  assumes "far_track (map snd (center_points t)) ds"
    and "set (temp_up_list s) \<union> set (temp_down_list s) \<subseteq> {..<id_count t}"
  shows "\<exists>t' s'. run_frames tracker_update (t, s) (map (\<lambda>d. [d]) ds) = Inr (t', s') \<and>
           up_list s' = up_list s \<and> down_list s' = down_list s"
  using assms by (rule run_frames_far_track)

theorem fast_object_never_counted_witness:
  "run_frames tracker_update (init_tracker, init_counter)
     (map (\<lambda>d. [d]) [(0, 208, 10, 10, 0), (0, 238, 10, 10, 0)]) =
   Inr (\<lparr>center_points = [(2, (5, 243))], id_count = 3\<rparr>, init_counter\<lparr>temp_up_list := [1]\<rparr>) \<and>
   up_list (init_counter\<lparr>temp_up_list := [1]\<rparr>) = up_list init_counter \<and>
   down_list (init_counter\<lparr>temp_up_list := [1]\<rparr>) = down_list init_counter"
proof -
  have f: "far_track (map snd (center_points init_tracker)) [(0, 208, 10, 10, 0), (0, 238, 10, 10, 0)]"
    by (simp add: init_tracker_def tracker_eval)
  have p: "set (temp_up_list init_counter) \<union> set (temp_down_list init_counter) \<subseteq> {..<id_count init_tracker}"
    by (simp add: init_counter_def)
  have run: "run_frames tracker_update (init_tracker, init_counter)
     (map (\<lambda>d. [d]) [(0, 208, 10, 10, 0), (0, 238, 10, 10, 0)]) =
   Inr (\<lparr>center_points = [(2, (5, 243))], id_count = 3\<rparr>, init_counter\<lparr>temp_up_list := [1]\<rparr>)"
    by (simp add: track_and_count_def tracker_eval init_tracker_def init_counter_def count_vehicle.simps)
  from fast_object_never_counted [OF f p] run show ?thesis by auto
qed

text \<open>
  C25. Conversely, an object tracked at \<open>p\<close> that moves less than 25 pixels
  between consecutive frames keeps its identity, and once it has been seen in the
  near-up band and later in the far-down band (with no far-down observation in
  between) the run has counted it: the total of \<open>down_list\<close> strictly grows.
  Tracker and counter together deliver the specification's crossing scenario once
  the steps are within the threshold.
\<close>

theorem slow_object_crossing_counted:
  assumes near: "near_track p (pre @ d1 # mid @ d2 # post)" and wf: "counter_wf s"
    and run: "run_frames tracker_update (\<lparr>center_points = [(i, p)], id_count = n\<rparr>, s)
      (map (\<lambda>d. [d]) (pre @ d1 # mid @ d2 # post)) = Inr (t', s')"
    and up: "band_of (snd (det_center d1)) = Near_up" and down: "band_of (snd (det_center d2)) = Far_down"
    and stay: "\<forall>d\<in>set mid. band_of (snd (det_center d)) \<noteq> Far_down"
  shows "sum_list (down_list s) < sum_list (down_list s')"
proof -
  have "count_boxes (map (annotate i) pre @ annotate i d1 # map (annotate i) mid @ annotate i d2 #
      map (annotate i) post) s = Inr s'"
    using run_frames_near_track [OF near run] by simp
  then show ?thesis
    using count_boxes_crossing_counted [OF wf _ _ _ _ _, of "map (annotate i) pre" "annotate i d1"
        "map (annotate i) mid" "annotate i d2" "map (annotate i) post" s' i]
      up down stay by (simp add: box_cy_annotate)
qed

theorem slow_object_crossing_counted_witness:
  "run_frames tracker_update (\<lparr>center_points = [(1, (5, 215))], id_count = 2\<rparr>, init_counter)
     (map (\<lambda>d. [d]) [(0, 215, 10, 10, 0), (0, 238, 10, 10, 0)]) =
   Inr (\<lparr>center_points = [(1, (5, 243))], id_count = 2\<rparr>, init_counter\<lparr>down_list := [1, 0, 0, 0]\<rparr>) \<and>
   sum_list (down_list init_counter) < sum_list (down_list (init_counter\<lparr>down_list := [1, 0, 0, 0]\<rparr>))"
proof -
  have n: "near_track (5, 215) ([] @ (0, 215, 10, 10, 0) # [] @ (0, 238, 10, 10, 0) # [])"
    by (simp add: tracker_eval)
  have wf: "counter_wf init_counter" by (simp add: counter_wf_def init_counter_def)
  have run: "run_frames tracker_update (\<lparr>center_points = [(1, (5, 215))], id_count = 2\<rparr>, init_counter)
     (map (\<lambda>d. [d]) ([] @ (0, 215, 10, 10, 0) # [] @ (0, 238, 10, 10, 0) # [])) =
   Inr (\<lparr>center_points = [(1, (5, 243))], id_count = 2\<rparr>, init_counter\<lparr>down_list := [1, 0, 0, 0]\<rparr>)"
    by (simp add: track_and_count_def tracker_eval init_counter_def count_vehicle.simps py_simps)
  have "sum_list (down_list init_counter) < sum_list (down_list (init_counter\<lparr>down_list := [1, 0, 0, 0]\<rparr>))"
    by (rule slow_object_crossing_counted [OF n wf run]) (simp_all add: band_of_def)
  with run show ?thesis by simp
qed

text \<open>
  C26. Across frames: every error-free run of the pipeline from a well-formed
  tracker and counter keeps both well-formed, and the counters never decrease.
\<close>

theorem run_frames_invariant:
  "tracker_wf (fst s) \<Longrightarrow> counter_wf (snd s) \<Longrightarrow> run_frames tracker_update s dss = Inr s' \<Longrightarrow>
     tracker_wf (fst s') \<and> counter_wf (snd s') \<and>
     list_all2 (\<le>) (up_list (snd s)) (up_list (snd s')) \<and>
     list_all2 (\<le>) (down_list (snd s)) (down_list (snd s'))"
proof (induction dss arbitrary: s)
  case (Cons ds dss)
  then obtain s1 where s1: "track_and_count tracker_update s ds = Inr s1"
    and r: "run_frames tracker_update s1 dss = Inr s'"
    by (auto simp: py_bind_eq_Inr)
  from track_and_count_step [OF Cons.prems(1,2) s1] have step:
    "tracker_wf (fst s1) \<and> counter_wf (snd s1) \<and>
     list_all2 (\<le>) (up_list (snd s)) (up_list (snd s1)) \<and>
     list_all2 (\<le>) (down_list (snd s)) (down_list (snd s1))" by simp
  with Cons.IH [OF _ _ r] show ?case by (blast intro: list_all2_le_trans)
qed auto

theorem run_frames_invariant_witness:
  "tracker_wf init_tracker \<and> counter_wf init_counter \<and>
   run_frames tracker_update (init_tracker, init_counter)
     [[(0, 215, 10, 10, 0)], [(0, 238, 10, 10, 0)], [(200, 228, 10, 10, 0)]] =
   Inr (\<lparr>center_points = [(2, (205, 233))], id_count = 3\<rparr>,
        init_counter\<lparr>temp_down_list := [2], down_list := [1, 0, 0, 0]\<rparr>) \<and>
   list_all2 (\<le>) [0, 0, 0, 0] [1, 0, 0, (0::nat)]"
proof -
  have w: "tracker_wf (fst (init_tracker, init_counter))" "counter_wf (snd (init_tracker, init_counter))"
    by (simp_all add: counter_wf_def init_counter_def)
  have r: "run_frames tracker_update (init_tracker, init_counter)
     [[(0, 215, 10, 10, 0)], [(0, 238, 10, 10, 0)], [(200, 228, 10, 10, 0)]] =
   Inr (\<lparr>center_points = [(2, (205, 233))], id_count = 3\<rparr>,
        init_counter\<lparr>temp_down_list := [2], down_list := [1, 0, 0, 0]\<rparr>)"
    by (simp add: track_and_count_def tracker_eval init_tracker_def init_counter_def count_vehicle.simps
        py_simps)
  from run_frames_invariant [OF w r] w r show ?thesis by (simp add: init_counter_def)
qed

text \<open>
  C22. The capture loop terminates on every capture that ends: if frames
  \<open>i, \<dots>, i + k - 1\<close> are delivered and frame \<open>i + k\<close> reports the end of the
  stream, \<open>video_loop\<close> returns, and what it returns is \<open>run_frames\<close> over
  exactly those \<open>k\<close> frames, in order (an exception of a frame included).
\<close>

theorem video_loop_terminates:
  assumes "\<forall>j<k. cap (i + j) \<noteq> None" and "cap (i + k) = None"
  shows "video_loop cap i s = Some (run_frames tracker_update s (map (\<lambda>j. the (cap (i + j))) [0..<k]))"
  using assms by (rule video_loop_run_frames)

theorem video_loop_terminates_witness:
  "video_loop (\<lambda>j. if j < 2 then Some [(0, 215 + 23 * int j, 10, 10, 0)] else None) 0 (init_tracker, init_counter) =
     Some (run_frames tracker_update (init_tracker, init_counter)
       [[(0, 215, 10, 10, 0)], [(0, 238, 10, 10, 0)]])"
  using video_loop_terminates [of 2 "\<lambda>j. if j < 2 then Some [(0, 215 + 23 * int j, 10, 10, 0)] else None" 0
      "(init_tracker, init_counter)"]
  by (simp add: upt_conv_Cons)

text \<open>
  C27. Error freedom across frames: if every detection of every frame carries a class
  index in \<open>0..3\<close> (what \<open>postProcess\<close> guarantees, C13) and the counter lists
  have four entries, the pipeline processes all frames without an exception.
\<close>

theorem run_frames_no_error:
  "in_class_range dss \<Longrightarrow> length (up_list (snd s)) = 4 \<Longrightarrow> length (down_list (snd s)) = 4 \<Longrightarrow>
     \<exists>s'. run_frames tracker_update s dss = Inr s'"
proof (induction dss arbitrary: s)
  case (Cons ds dss)
  from Cons.prems obtain s1 where s1: "track_and_count tracker_update s ds = Inr s1"
    using track_and_count_ok [of ds s] by (auto simp: in_class_range_def)
  with Cons.prems have "\<exists>s'. run_frames tracker_update s1 dss = Inr s'"
    by (intro Cons.IH) (auto simp: in_class_range_def dest: track_and_count_lengths)
  with s1 show ?case by simp
qed simp

theorem run_frames_no_error_witness:
  "in_class_range [[(0, 215, 10, 10, 3)], [(0, 238, 10, 10, 3)]] \<and>
   (\<exists>s'. run_frames tracker_update (init_tracker, init_counter)
      [[(0, 215, 10, 10, 3)], [(0, 238, 10, 10, 3)]] = Inr s')"
proof -
  have c: "in_class_range [[(0, 215, 10, 10, 3)], [(0, 238, 10, 10, 3)]]"
    by (simp add: in_class_range_def)
  have "length (up_list (snd (init_tracker, init_counter))) = 4"
    "length (down_list (snd (init_tracker, init_counter))) = 4"
    by (simp_all add: init_counter_def)
  from run_frames_no_error [OF c this] c show ?thesis by simp
qed

text \<open>
  C36. Type soundness of one frame, as progress and preservation: from a
  well-typed state (\<open>app_typed\<close>), on network rows with at least five fields, a
  sound non-maximum suppression and a names list reaching the truck's index,
  \<open>postProcess\<close> returns without an exception and leaves a well-typed state.
\<close>

theorem postProcess_type_sound:
  assumes "app_typed classNames st" and "\<forall>out\<in>set outputs. \<forall>det\<in>set out. 5 < length det"
    and "nms_sound nms" and "8 \<le> length classNames"
  shows "\<exists>st'. postProcess tracker_update nms classNames height width outputs st = Inr st' \<and>
           app_typed classNames st'"
proof -
  have "length (up_list (counter st)) = 4" "length (down_list (counter st)) = 4"
    using assms(1) by (simp_all add: app_typed_def)
  then obtain st' where "postProcess tracker_update nms classNames height width outputs st = Inr st'"
    using postProcess_ok [OF assms(2-4) tracker_update_class_sound] by blast
  with postProcess_typed_step [OF assms(1)] show ?thesis by blast
qed

theorem postProcess_type_sound_witness:
  "app_typed coco_prefix start_state \<and> nms_sound keep_all \<and>
   (\<exists>st'. postProcess tracker_update keep_all coco_prefix 416 416
      [[[0.5, 0.5, 0.1, 0.2, 0.9, 0, 0, 0.7, 0.1]]] start_state = Inr st' \<and>
      app_typed coco_prefix st')"
proof -
  have t: "app_typed coco_prefix start_state"
    by (simp add: app_typed_def start_state_def tracker_wf_def init_tracker_def counter_wf_def init_counter_def)
  have n: "nms_sound keep_all" by (simp add: nms_sound_def keep_all_def)
  show ?thesis
    using postProcess_type_sound [OF t _ n, of "[[[0.5, 0.5, 0.1, 0.2, 0.9, 0, 0, 0.7, 0.1]]]" 416 416] t n
    by (simp add: coco_prefix_def)
qed

text \<open>
  C37. End to end, the script's \<open>__main__\<close>: for a \<open>coco.names\<close> file holding one
  name per line (any of the three line endings) that starts with the eight COCO
  names up to \<open>truck\<close>, network rows with at least five fields and a sound
  non-maximum suppression, on a POSIX system (\<open>os.linesep = '\n'\<close>) the program
  does not raise, it appends exactly one line to \<open>static-data.csv\<close>, and a CSV
  reader reads that line back as the image name followed by the numbers of kept
  detections of car, motorbike, bus and truck (on Windows it does not: C38).
\<close>

theorem static_main_writes_detection_counts:
  assumes "eol \<in> {[LF], [CR, LF], [CR]}" and names: "take 8 names = coco_prefix"
    and "\<forall>n\<in>set names. LF \<notin> set n \<and> CR \<notin> set n"
    and "last names \<noteq> []" and "\<not> py_isspace (last (last names))"
    and rows: "\<forall>out\<in>set outputs. \<forall>det\<in>set out. 5 < length det" and nms: "nms_sound nms"
  shows "\<exists>st' line c dets.
           static_main [LF] nms (names_file eol names) csv_file image_path height width outputs =
             Inr (st', csv_file @ line) \<and>
           map_option hd (csv_read_row line) = Some image_path \<and>
           map_option (map digits_value \<circ> tl) (csv_read_row line) =
             Some (map (count_list (map det_class dets)) [0, 1, 2, 3]) \<and>
           scan_outputs height width outputs empty_candidates = Inr c \<and>
           select_boxes names c (nms (boxes c) (confidence_scores c) confThreshold nmsThreshold) [] [] =
             Inr (detected_classNames st', dets)"
proof -
  have split: "names = coco_prefix @ drop 8 names"
    using names by (metis append_take_drop_id)
  have ne: "names \<noteq> []" by (subst split) (simp add: coco_prefix_def)
  have hd: "hd names = ''person''" by (subst split) (simp add: coco_prefix_def)
  have load: "load_class_names (names_file eol names) = names"
    using load_class_names_names_file [OF assms(1) ne assms(3) _ _ assms(4,5)] hd
    by (simp add: py_isspace_def)
  have "length (take 8 names) = 8" using names by (simp add: coco_prefix_def)
  then have len: "8 \<le> length names" by simp
  have "length (up_list (counter start_state)) = 4" "length (down_list (counter start_state)) = 4"
    by (simp_all add: start_state_def init_counter_def)
  then obtain st' where pp: "postProcess tracker_update nms names height width outputs start_state = Inr st'"
    using postProcess_ok [OF rows nms len tracker_update_class_sound] by blast
  then have run: "from_static_image tracker_update nms names image_path height width outputs start_state =
      Inr (st', static_row image_path (detected_classNames st'))"
    by (simp add: from_static_image_def)
  have fresh: "detected_classNames start_state = []" by (simp add: start_state_def)
  from from_static_image_row [OF names fresh run] obtain c dets where
    c: "scan_outputs height width outputs empty_candidates = Inr c"
    and sel: "select_boxes names c (nms (boxes c) (confidence_scores c) confThreshold nmsThreshold) [] [] =
      Inr (detected_classNames st', dets)"
    and row: "static_row image_path (detected_classNames st') =
      (image_path, map (count_list (map det_class dets)) [0, 1, 2, 3])"
    by auto
  let ?counts = "map (count_list (map det_class dets)) [0, 1, 2, 3]"
  let ?line = "csv_writerow (static_csv_row (image_path, ?counts))"
  have "static_main [LF] nms (names_file eol names) csv_file image_path height width outputs =
      Inr (st', csv_file @ ?line)"
    using run row load by (simp add: static_main_def csv_append_def)
  moreover have "csv_read_row ?line = Some (image_path # map py_str_nat ?counts)"
    using csv_read_writerow [of "image_path # map py_str_nat ?counts"] by (simp add: static_csv_row_def)
  moreover have "map digits_value (map py_str_nat ?counts) = ?counts"
    by (simp add: digits_value_py_str_nat)
  ultimately show ?thesis using c sel by fastforce
qed

theorem static_main_writes_detection_counts_witness:
  "\<exists>st' line c dets.
     static_main [LF] keep_all (names_file [CR, LF] coco_prefix) [] ''I-80_Eastshore_Fwy.jpg'' 416 416
       [[[0.5, 0.5, 0.1, 0.2, 0.9, 0, 0, 0.7, 0.1]]] = Inr (st', line) \<and>
     map_option hd (csv_read_row line) = Some ''I-80_Eastshore_Fwy.jpg'' \<and>
     map_option (map digits_value \<circ> tl) (csv_read_row line) =
       Some (map (count_list (map det_class dets)) [0, 1, 2, 3]) \<and>
     scan_outputs 416 416 [[[0.5, 0.5, 0.1, 0.2, 0.9, 0, 0, 0.7, 0.1]]] empty_candidates = Inr c \<and>
     select_boxes coco_prefix c (keep_all (boxes c) (confidence_scores c) confThreshold nmsThreshold) [] [] =
       Inr (detected_classNames st', dets)"
proof -
  have n: "nms_sound keep_all" by (simp add: nms_sound_def keep_all_def)
  have e: "[CR, LF] \<in> {[LF], [CR, LF], [CR]}" by simp
  have t: "take 8 coco_prefix = coco_prefix" by (simp add: coco_prefix_def)
  show ?thesis
    using static_main_writes_detection_counts [OF e t _ _ _ _ n,
        of "[[[0.5, 0.5, 0.1, 0.2, 0.9, 0, 0, 0.7, 0.1]]]" "[]" "''I-80_Eastshore_Fwy.jpg''" 416 416]
    by (simp add: coco_prefix_def py_isspace_def)
qed

theorem from_static_image_row_counts_detections_witness:
  "take 8 coco_prefix = coco_prefix \<and>
   from_static_image tracker_update keep_all coco_prefix ''I-80_Eastshore_Fwy.jpg'' 416 416
      [[[0.5, 0.5, 0.1, 0.2, 0.9, 0, 0, 0.7, 0.1]]] (start_state\<lparr>detected_classNames := [''car'']\<rparr>) =
     Inr (start_state\<lparr>trk := \<lparr>center_points = [(1, (207, 207))], id_count = 2\<rparr>,
                       detected_classNames := [''car'', ''car'']\<rparr>,
          (''I-80_Eastshore_Fwy.jpg'', [2, 0, 0, 0])) \<and>
   select_boxes coco_prefix \<lparr>boxes = [(187, 166, 41, 83)], classIds = [2], confidence_scores = [0.7]\<rparr>
      [0] [''car''] [] = Inr ([''car'', ''car''], [(187, 166, 41, 83, 0)])"
proof -
  have n: "take 8 coco_prefix = coco_prefix" by (simp add: coco_prefix_def)
  have run: "from_static_image tracker_update keep_all coco_prefix ''I-80_Eastshore_Fwy.jpg'' 416 416
      [[[0.5, 0.5, 0.1, 0.2, 0.9, 0, 0, 0.7, 0.1]]] (start_state\<lparr>detected_classNames := [''car'']\<rparr>) =
     Inr (start_state\<lparr>trk := \<lparr>center_points = [(1, (207, 207))], id_count = 2\<rparr>,
                       detected_classNames := [''car'', ''car'']\<rparr>,
          (''I-80_Eastshore_Fwy.jpg'', [2, 0, 0, 0]))"
    by (simp add: from_static_image_def static_row_def postProcess_def track_and_count_def
        det_eval add_candidate_def empty_candidates_def keep_all_def coco_prefix_def
        py_simps start_state_def init_tracker_def tracker_update_def init_counter_def count_vehicle.simps)
  have sel: "select_boxes coco_prefix \<lparr>boxes = [(187, 166, 41, 83)], classIds = [2], confidence_scores = [0.7]\<rparr>
      [0] [''car''] [] = Inr ([''car'', ''car''], [(187, 166, 41, 83, 0)])"
    by (simp add: coco_prefix_def py_simps required_class_index_def)
  from from_static_image_row_counts_detections [OF n run] n run sel show ?thesis by simp
qed

end
